theory Spec2Isabelle
  imports Complex_Main "HOL-Library.Sublist" "HOL-Library.Log_Nat"
begin

section \<open>The S3 prefix copier (package s3copier)\<close>

text \<open>
  A shallow embedding of \<^verbatim>\<open>s3copier.go\<close>. The storage service is an external
  collaborator: every call of the SDK client is answered by a response function that
  sees the calls and answers of the run so far, so a property proved for every such
  function holds for every behaviour of the service. A Go function that returns
  \<^verbatim>\<open>error\<close> yields \<open>Return None\<close> for \<^verbatim>\<open>nil\<close>, \<open>Return (Some e)\<close> for an
  error, and \<open>Panic p\<close> where the Go runtime panics.
\<close>

subsection \<open>Constants and machine integers\<close>

definition FIVE_MB :: int where
  "FIVE_MB = 5 * 1024 * 1024"

definition WORKER_COUNT :: nat where
  "WORKER_COUNT = 50"

text \<open>
  \<^verbatim>\<open>int64\<close> values are integers in \<open>[-2^63, 2^63)\<close>; an arithmetic result is
  brought back into that interval by \<open>wrap64\<close>, as two's complement addition does.
\<close>

definition in_int64 :: "int \<Rightarrow> bool" where
  "in_int64 x \<longleftrightarrow> - (2 ^ 63) \<le> x \<and> x < 2 ^ 63"

definition wrap64 :: "int \<Rightarrow> int" where
  "wrap64 x = (x + 2 ^ 63) mod 2 ^ 64 - 2 ^ 63"

subsection \<open>Formatting with \<^verbatim>\<open>%d\<close>\<close>

definition digit :: "int \<Rightarrow> char" where
  "digit d = ''0123456789'' ! nat d"

function showNat :: "int \<Rightarrow> string" where
  "showNat n = (if n < 10 then [digit n] else showNat (n div 10) @ [digit (n mod 10)])"
  by pat_completeness auto
termination
  by (relation "measure nat") auto

declare showNat.simps [simp del]

text \<open>The digits of a negative number are those of its magnitude, after the sign.\<close>

definition showInt :: "int \<Rightarrow> string" where
  "showInt i = (if i < 0 then CHR ''-'' # showNat (- i) else showNat i)"

subsection \<open>Object references\<close>

record S3Object =
  bucket :: string
  key :: string

text \<open>\<^verbatim>\<open>fmt.Sprintf("%s/%s", s.bucket, s.key)\<close>\<close>

definition bucketKeyPath :: "S3Object \<Rightarrow> string" where
  "bucketKeyPath s = bucket s @ ''/'' @ key s"

subsection \<open>Requests and answers of the storage client\<close>

text \<open>
  The fields are those the program sets or reads. A pointer field the program passes on
  or dereferences is an \<open>option\<close> (\<open>None\<close> for \<^verbatim>\<open>nil\<close>); a field the program always
  fills with \<^verbatim>\<open>aws.String\<close> or \<^verbatim>\<open>aws.Int64\<close> is the value itself.
\<close>

type_synonym metadata = "(string \<times> string) list"

record HeadObjectInput =
  head_Bucket :: string
  head_Key :: string

record HeadObjectOutput =
  ContentLength :: "int option"
  ContentType :: "string option"
  Metadata :: metadata

record CopyObjectInput =
  copy_Bucket :: string
  copy_Key :: string
  copy_ContentType :: "string option"
  copy_CopySource :: string
  copy_MetadataDirective :: "string option"

record CreateMultipartUploadInput =
  create_Bucket :: string
  create_Key :: string
  create_ContentType :: "string option"
  create_Metadata :: metadata

record CreateMultipartUploadOutput =
  UploadId :: "string option"

record UploadPartCopyInput =
  part_Bucket :: string
  part_CopySource :: string
  part_CopySourceRange :: string
  part_Key :: string
  part_PartNumber :: int
  part_UploadId :: "string option"

record CopyPartResult =
  result_ETag :: "string option"

record UploadPartCopyOutput =
  CopyPartResult :: "CopyPartResult option"

record CompletedPart =
  ETag :: string
  PartNumber :: int

record CompleteMultipartUploadInput =
  complete_Bucket :: string
  complete_Key :: string
  complete_Parts :: "CompletedPart option list"
  complete_UploadId :: "string option"

datatype 'e event =
    EvHeadObject HeadObjectInput "'e + HeadObjectOutput"
  | EvCopyObject CopyObjectInput "'e + unit"
  | EvCreateMultipartUpload CreateMultipartUploadInput "'e + CreateMultipartUploadOutput"
  | EvUploadPartCopy UploadPartCopyInput "'e + UploadPartCopyOutput"
  | EvCompleteMultipartUpload CompleteMultipartUploadInput "'e + unit"

type_synonym 'e trace = "'e event list"

record 'e S3 =
  HeadObject :: "'e trace \<Rightarrow> HeadObjectInput \<Rightarrow> 'e + HeadObjectOutput"
  CopyObject :: "'e trace \<Rightarrow> CopyObjectInput \<Rightarrow> 'e + unit"
  CreateMultipartUpload ::
    "'e trace \<Rightarrow> CreateMultipartUploadInput \<Rightarrow> 'e + CreateMultipartUploadOutput"
  UploadPartCopy :: "'e trace \<Rightarrow> UploadPartCopyInput \<Rightarrow> 'e + UploadPartCopyOutput"
  CompleteMultipartUpload :: "'e trace \<Rightarrow> CompleteMultipartUploadInput \<Rightarrow> 'e + unit"

definition MetadataDirectiveReplace :: string where
  "MetadataDirectiveReplace = ''REPLACE''"

subsection \<open>Results of a Go function\<close>

datatype panic =
    NilPointerDereference
  | SliceBoundsOutOfRange
  | IndexOutOfRange
  | MakeSliceLenOutOfRange

datatype 'e exit =
    Return "'e option"
  | Panic panic

text \<open>
  The slice expression \<^verbatim>\<open>s[lo:hi]\<close> of a string: it panics unless
  \<open>0 \<le> lo \<le> hi \<le> len(s)\<close>.
\<close>

definition goSlice :: "string \<Rightarrow> int \<Rightarrow> int \<Rightarrow> panic + string" where
  "goSlice s lo hi =
     (if 0 \<le> lo \<and> lo \<le> hi \<and> hi \<le> int (length s)
      then Inr (take (nat (hi - lo)) (drop (nat lo) s))
      else Inl SliceBoundsOutOfRange)"

subsection \<open>The copier\<close>

record 'e S3Copier =
  partSize :: int
  s3client :: "'e S3"

definition NewS3Copier :: "'e S3 \<Rightarrow> 'e S3Copier" where
  "NewS3Copier sess = \<lparr>partSize = FIVE_MB * 2, s3client = sess\<rparr>"

definition headObject ::
  "'e S3Copier \<Rightarrow> S3Object \<Rightarrow> 'e trace \<Rightarrow> ('e + HeadObjectOutput) \<times> 'e trace" where
  "headObject c obj tr =
     (let inp = \<lparr>head_Bucket = bucket obj, head_Key = key obj\<rparr>;
          r = HeadObject (s3client c) tr inp
      in (r, tr @ [EvHeadObject inp r]))"

definition createMultiPartUpload ::
  "'e S3Copier \<Rightarrow> S3Object \<Rightarrow> HeadObjectOutput \<Rightarrow> 'e trace
     \<Rightarrow> ('e + CreateMultipartUploadOutput) \<times> 'e trace" where
  "createMultiPartUpload c dest srcHead tr =
     (let inp = \<lparr>create_Bucket = bucket dest, create_Key = key dest,
                 create_ContentType = ContentType srcHead,
                 create_Metadata = Metadata srcHead\<rparr>;
          r = CreateMultipartUpload (s3client c) tr inp
      in (r, tr @ [EvCreateMultipartUpload inp r]))"

definition uploadPartCopyInput ::
  "int \<Rightarrow> S3Object \<Rightarrow> S3Object \<Rightarrow> int \<Rightarrow> int \<Rightarrow> string option \<Rightarrow> UploadPartCopyInput" where
  "uploadPartCopyInput partNum src dest bytePosition lastByte uploadId =
     \<lparr>part_Bucket = bucket dest,
      part_CopySource = bucketKeyPath src,
      part_CopySourceRange = ''bytes='' @ showInt bytePosition @ ''-'' @ showInt lastByte,
      part_Key = key dest,
      part_PartNumber = partNum,
      part_UploadId = uploadId\<rparr>"

definition uploadPartCopy ::
  "'e S3Copier \<Rightarrow> int \<Rightarrow> S3Object \<Rightarrow> S3Object \<Rightarrow> int \<Rightarrow> int \<Rightarrow> string option \<Rightarrow> 'e trace
     \<Rightarrow> ('e + UploadPartCopyOutput) \<times> 'e trace" where
  "uploadPartCopy c partNum src dest bytePosition lastByte uploadId tr =
     (let inp = uploadPartCopyInput partNum src dest bytePosition lastByte uploadId;
          r = UploadPartCopy (s3client c) tr inp
      in (r, tr @ [EvUploadPartCopy inp r]))"

definition ensureContentTypeM3u8Input :: "S3Object \<Rightarrow> CopyObjectInput" where
  "ensureContentTypeM3u8Input src =
     \<lparr>copy_Bucket = bucket src, copy_Key = key src,
      copy_ContentType = Some ''application/vnd.apple.mpegurl'',
      copy_CopySource = bucketKeyPath src,
      copy_MetadataDirective = Some MetadataDirectiveReplace\<rparr>"

definition ensureContentTypeM3u8 ::
  "'e S3Copier \<Rightarrow> S3Object \<Rightarrow> 'e trace \<Rightarrow> 'e option \<times> 'e trace" where
  "ensureContentTypeM3u8 c src tr =
     (let inp = ensureContentTypeM3u8Input src;
          r = CopyObject (s3client c) tr inp
      in (case r of Inl e \<Rightarrow> Some e | Inr _ \<Rightarrow> None, tr @ [EvCopyObject inp r]))"

definition copyToSinglePartInput :: "S3Object \<Rightarrow> S3Object \<Rightarrow> CopyObjectInput" where
  "copyToSinglePartInput src dest =
     \<lparr>copy_Bucket = bucket dest, copy_Key = key dest,
      copy_ContentType = None,
      copy_CopySource = bucketKeyPath src,
      copy_MetadataDirective = None\<rparr>"

definition copyToSinglePart ::
  "'e S3Copier \<Rightarrow> S3Object \<Rightarrow> S3Object \<Rightarrow> 'e trace \<Rightarrow> 'e exit \<times> 'e trace" where
  "copyToSinglePart c src dest tr =
     (let inp = copyToSinglePartInput src dest;
          r = CopyObject (s3client c) tr inp
      in (Return (case r of Inl e \<Rightarrow> Some e | Inr _ \<Rightarrow> None), tr @ [EvCopyObject inp r]))"

subsection \<open>The number of parts, computed in \<^verbatim>\<open>float64\<close>\<close>

text \<open>
  \<^verbatim>\<open>int(math.Ceil(float64(objectSize) / float64(c.partSize)))\<close> is computed in
  IEEE 754 binary64 with round to nearest, ties to even. A finite \<^verbatim>\<open>float64\<close> is
  represented by the rational number it denotes. The values met here have magnitudes
  between \<open>2^-63\<close> and \<open>2^63\<close>, where neither overflow nor subnormal numbers occur, so
  rounding keeps 53 significant bits. The sign of zero is not represented: every
  divisor is the conversion of an integer, which is never \<open>-0\<close>.
\<close>

datatype float64 = Finite rat | PosInf | NegInf | NaN

text \<open>\<open>floorLog2 p q\<close> is the integer \<open>e\<close> with \<open>2^e \<le> p/q < 2^(e+1)\<close>, for positive \<open>p\<close>, \<open>q\<close>.\<close>

definition floorLog2 :: "int \<Rightarrow> int \<Rightarrow> int" where
  "floorLog2 p q =
     (let d = bitlen p - bitlen q
      in if (if 0 \<le> d then q * 2 ^ nat d \<le> p else q \<le> p * 2 ^ nat (- d)) then d else d - 1)"

text \<open>The integer nearest to \<open>num/den\<close>, the even one of two equally near.\<close>

definition roundQuotient :: "int \<Rightarrow> int \<Rightarrow> int" where
  "roundQuotient num den =
     (let m = num div den;
          r = num mod den
      in if den < 2 * r \<or> (2 * r = den \<and> odd m) then m + 1 else m)"

text \<open>
  The positive fraction \<open>p/q\<close> rounded to 53 significant bits: scaled by a power of
  two into \<open>[2^52, 2^53)\<close>, rounded to an integer, and scaled back.
\<close>

definition roundPos :: "int \<Rightarrow> int \<Rightarrow> rat" where
  "roundPos p q =
     (let t = 52 - floorLog2 p q
      in if 0 \<le> t then of_int (roundQuotient (p * 2 ^ nat t) q) / 2 ^ nat t
         else of_int (roundQuotient p (q * 2 ^ nat (- t))) * 2 ^ nat (- t))"

definition roundNearestEven :: "rat \<Rightarrow> rat" where
  "roundNearestEven x =
     (case quotient_of x of (p, q) \<Rightarrow>
        if p = 0 then 0 else if 0 < p then roundPos p q else - roundPos (- p) q)"

text \<open>\<^verbatim>\<open>float64(x)\<close> for an \<^verbatim>\<open>int64\<close> \<open>x\<close>.\<close>

definition float64_of_int64 :: "int \<Rightarrow> rat" where
  "float64_of_int64 x = roundNearestEven (of_int x)"

definition float64_div :: "rat \<Rightarrow> rat \<Rightarrow> float64" where
  "float64_div x y =
     (if y = 0 then (if x = 0 then NaN else if 0 < x then PosInf else NegInf)
      else Finite (roundNearestEven (x / y)))"

definition math_Ceil :: "float64 \<Rightarrow> float64" where
  "math_Ceil f = (case f of Finite x \<Rightarrow> Finite (of_int \<lceil>x\<rceil>) | _ \<Rightarrow> f)"

text \<open>
  \<^verbatim>\<open>int(f)\<close> truncates towards zero, \<^verbatim>\<open>int\<close> having 64 bits. When the value
  does not fit, or is infinite or not a number, the language leaves the result to the
  implementation; the conversion instruction the Go compiler emits for amd64 then
  answers the smallest \<^verbatim>\<open>int64\<close>, \<open>-2^63\<close>, and that is the value taken here.
\<close>

definition int_of_float64 :: "float64 \<Rightarrow> int" where
  "int_of_float64 f =
     (case f of
        Finite x \<Rightarrow>
          (let i = (if 0 \<le> x then \<lfloor>x\<rfloor> else \<lceil>x\<rceil>)
           in if in_int64 i then i else - (2 ^ 63))
      | _ \<Rightarrow> - (2 ^ 63))"

definition partsSize :: "int \<Rightarrow> int \<Rightarrow> int" where
  "partsSize objectSize psize =
     int_of_float64 (math_Ceil (float64_div (float64_of_int64 objectSize) (float64_of_int64 psize)))"

subsection \<open>Multi-part copy\<close>

lemma wrap64_wrap64_add: "wrap64 (wrap64 x + y) = wrap64 (x + y)"
  unfolding wrap64_def by (simp add: mod_simps algebra_simps)

lemma wrap64_id: "in_int64 x \<Longrightarrow> wrap64 x = x"
  unfolding wrap64_def in_int64_def by simp

lemma wrap64_range: "in_int64 (wrap64 x)"
proof -
  have "0 \<le> (x + 2 ^ 63) mod (2 ^ 64 :: int)" "(x + 2 ^ 63) mod (2 ^ 64 :: int) < 2 ^ 64"
    by simp_all
  then show ?thesis unfolding wrap64_def in_int64_def by simp
qed

text \<open>
  Lines 158 to 161: the last byte of the part that starts at \<open>bytePosition\<close>.
\<close>

definition lastByte :: "int \<Rightarrow> int \<Rightarrow> int \<Rightarrow> int" where
  "lastByte psize objectSize bytePosition =
     (let l = wrap64 (wrap64 (bytePosition + psize) - 1)
      in if l > wrap64 (objectSize - 1) then wrap64 (objectSize - 1) else l)"

text \<open>
  Lines 163 to 179, the body of the loop without the update of its two counters: the
  part copy, the slice of the returned entity tag and the store into
  \<^verbatim>\<open>completedParts[partNum-1]\<close>. \<open>Inl\<close> is the exit of the function from inside the
  body; a failed part copy returns \<^verbatim>\<open>nil\<close> (line 172). In the assignment the
  right-hand side is evaluated before the element is stored.
\<close>

definition copyPart ::
  "'e S3Copier \<Rightarrow> S3Object \<Rightarrow> S3Object \<Rightarrow> string option \<Rightarrow> int \<Rightarrow> int \<Rightarrow> int
     \<Rightarrow> CompletedPart option list \<Rightarrow> 'e trace
     \<Rightarrow> ('e exit + CompletedPart option list) \<times> 'e trace" where
  "copyPart c src dest uploadId partNum bytePosition lastB completedParts tr =
     (case uploadPartCopy c partNum src dest bytePosition lastB uploadId tr of
        (Inl err, tr1) \<Rightarrow> (Inl (Return None), tr1)
      | (Inr partResult, tr1) \<Rightarrow>
          (case CopyPartResult partResult of
             None \<Rightarrow> (Inl (Panic NilPointerDereference), tr1)
           | Some cpr \<Rightarrow>
               (case result_ETag cpr of
                  None \<Rightarrow> (Inl (Panic NilPointerDereference), tr1)
                | Some etag \<Rightarrow>
                    (case goSlice etag 1 (int (length etag) - 1) of
                       Inl p \<Rightarrow> (Inl (Panic p), tr1)
                     | Inr stripped \<Rightarrow>
                         (let i = wrap64 (partNum - 1)
                          in if 0 \<le> i \<and> i < int (length completedParts) then
                               (Inr (completedParts
                                  [nat i := Some \<lparr>ETag = stripped, PartNumber = partNum\<rparr>]),
                                tr1)
                             else (Inl (Panic IndexOutOfRange), tr1))))))"

lemma copyPart_Inr_index:
  assumes "copyPart c src dest uploadId partNum bytePosition lastB completedParts tr
             = (Inr parts', tr1)"
  shows "0 \<le> wrap64 (partNum - 1)" "wrap64 (partNum - 1) < int (length completedParts)"
    "length parts' = length completedParts"
  using assms
  by (auto simp: copyPart_def Let_def
      split: prod.splits sum.splits option.splits if_splits)

text \<open>
  The loop \<^verbatim>\<open>for bytePosition < objectSize { ... }\<close> of \<^verbatim>\<open>copyToMultiPart\<close>. It
  ends with \<open>Inr completedParts\<close> when the loop condition fails, and with \<open>Inl\<close> of an
  exit when the body returns or panics.
\<close>

function copyParts ::
  "'e S3Copier \<Rightarrow> S3Object \<Rightarrow> S3Object \<Rightarrow> string option \<Rightarrow> int \<Rightarrow> int \<Rightarrow> int
     \<Rightarrow> CompletedPart option list \<Rightarrow> 'e trace
     \<Rightarrow> ('e exit + CompletedPart option list) \<times> 'e trace" where
  "copyParts c src dest uploadId objectSize bytePosition partNum completedParts tr =
     (if bytePosition < objectSize then
        (case copyPart c src dest uploadId partNum bytePosition
                (lastByte (partSize c) objectSize bytePosition) completedParts tr of
           (Inl ex, tr1) \<Rightarrow> (Inl ex, tr1)
         | (Inr parts', tr1) \<Rightarrow>
             copyParts c src dest uploadId objectSize
               (wrap64 (bytePosition + partSize c)) (wrap64 (partNum + 1)) parts' tr1)
      else (Inr completedParts, tr))"
  by pat_completeness auto
termination
proof (relation "measure (\<lambda>(c, src, dest, uploadId, objectSize, bytePosition, partNum,
          completedParts, tr).
        (let i = wrap64 (partNum - 1)
         in if 0 \<le> i \<and> i < int (length completedParts)
            then length completedParts - nat i else 0))", goal_cases)
  case 1
  show ?case by simp
next
  case (2 c src dest uploadId objectSize bytePosition partNum completedParts tr r tr1 parts')
  define i where "i = wrap64 (partNum - 1)"
  have next_i: "wrap64 (wrap64 (partNum + 1) - 1) = wrap64 (i + 1)"
    using wrap64_wrap64_add [of "partNum + 1" "- 1"] wrap64_wrap64_add [of "partNum - 1" 1]
    by (simp add: i_def)
  from 2 have stored: "copyPart c src dest uploadId partNum bytePosition
      (lastByte (partSize c) objectSize bytePosition) completedParts tr = (Inr parts', tr1)"
    by simp
  have i: "0 \<le> i" "i < int (length completedParts)"
    and len: "length parts' = length completedParts"
    using copyPart_Inr_index [OF stored] by (simp_all add: i_def)
  have "in_int64 i" unfolding i_def by (rule wrap64_range)
  then have "i < 2 ^ 63" by (simp add: in_int64_def)
  show ?case
  proof (cases "i + 1 < 2 ^ 63")
    case True
    with i have "wrap64 (i + 1) = i + 1"
      by (intro wrap64_id) (simp add: in_int64_def)
    with i len show ?thesis
      by (simp add: next_i i_def [symmetric] Let_def) linarith
  next
    case False
    with \<open>i < 2 ^ 63\<close> have "i + 1 = 2 ^ 63" by simp
    then have "wrap64 (i + 1) = - (2 ^ 63)" by (simp add: wrap64_def)
    with i len show ?thesis
      by (simp add: next_i i_def [symmetric] Let_def)
  qed
qed

declare copyParts.simps [simp del]

text \<open>
  \<^verbatim>\<open>make([]*s3.CompletedPart, n)\<close> panics when \<open>n\<close> is negative and when \<open>n\<close>
  elements need more than the runtime can allocate at all: \<open>2^48\<close> bytes on amd64, which
  for elements of 8 bytes is \<open>2^45\<close> of them. Whether the machine has the memory for a
  length within that bound is not part of the model.
\<close>

definition maxSliceLen :: int where
  "maxSliceLen = 2 ^ 45"

definition copyToMultiPart ::
  "'e S3Copier \<Rightarrow> S3Object \<Rightarrow> S3Object \<Rightarrow> 'e trace \<Rightarrow> 'e exit \<times> 'e trace" where
  "copyToMultiPart c src dest tr =
     (case headObject c src tr of
        (Inl err, tr1) \<Rightarrow> (Return (Some err), tr1)
      | (Inr head, tr1) \<Rightarrow>
          (case createMultiPartUpload c dest head tr1 of
             (Inl err, tr2) \<Rightarrow> (Return (Some err), tr2)
           | (Inr multipartUploadInit, tr2) \<Rightarrow>
               (case ContentLength head of
                  None \<Rightarrow> (Panic NilPointerDereference, tr2)
                | Some objectSize \<Rightarrow>
                    (let n = partsSize objectSize (partSize c)
                     in if n < 0 \<or> maxSliceLen < n then (Panic MakeSliceLenOutOfRange, tr2)
                        else
                          (case copyParts c src dest (UploadId multipartUploadInit) objectSize
                                  0 1 (replicate (nat n) None) tr2 of
                             (Inl ex, tr3) \<Rightarrow> (ex, tr3)
                           | (Inr completedParts, tr3) \<Rightarrow>
                               (let inp = \<lparr>complete_Bucket = bucket dest,
                                           complete_Key = key dest,
                                           complete_Parts = completedParts,
                                           complete_UploadId = UploadId multipartUploadInit\<rparr>;
                                    r = CompleteMultipartUpload (s3client c) tr3 inp
                                in (Return (case r of Inl err \<Rightarrow> Some err | Inr _ \<Rightarrow> None),
                                    tr3 @ [EvCompleteMultipartUpload inp r])))))))"

subsection \<open>Choosing the strategy\<close>

definition CopyTo ::
  "'e S3Copier \<Rightarrow> S3Object \<Rightarrow> S3Object \<Rightarrow> 'e trace \<Rightarrow> 'e exit \<times> 'e trace" where
  "CopyTo c src dest tr =
     (case headObject c src tr of
        (Inl err, tr1) \<Rightarrow> (Return (Some err), tr1)
      | (Inr head, tr1) \<Rightarrow>
          (case (if suffix ''.m3u8'' (key src) then ensureContentTypeM3u8 c src tr1
                 else (None, tr1)) of
             (Some err, tr2) \<Rightarrow> (Return (Some err), tr2)
           | (None, tr2) \<Rightarrow>
               (case ContentLength head of
                  None \<Rightarrow> (Panic NilPointerDereference, tr2)
                | Some objectSize \<Rightarrow>
                    if objectSize \<le> FIVE_MB then copyToSinglePart c src dest tr2
                    else copyToMultiPart c src dest tr2)))"

subsection \<open>Reading a run\<close>

text \<open>The part copies a run asked for, in order.\<close>

fun uploadPartInputs :: "'e trace \<Rightarrow> UploadPartCopyInput list" where
  "uploadPartInputs [] = []"
| "uploadPartInputs (EvUploadPartCopy inp r # tr) = inp # uploadPartInputs tr"
| "uploadPartInputs (ev # tr) = uploadPartInputs tr"

text \<open>The manifests passed to complete-multipart-upload.\<close>

fun completeInputs :: "'e trace \<Rightarrow> CompleteMultipartUploadInput list" where
  "completeInputs [] = []"
| "completeInputs (EvCompleteMultipartUpload inp r # tr) = inp # completeInputs tr"
| "completeInputs (ev # tr) = completeInputs tr"

fun isUploadPartCopy :: "'e event \<Rightarrow> bool" where
  "isUploadPartCopy (EvUploadPartCopy inp r) = True"
| "isUploadPartCopy ev = False"

fun isCopyObject :: "'e event \<Rightarrow> bool" where
  "isCopyObject (EvCopyObject inp r) = True"
| "isCopyObject ev = False"

text \<open>A metadata rewrite is a copy with the metadata directive \<^verbatim>\<open>REPLACE\<close>.\<close>

fun isRewrite :: "'e event \<Rightarrow> bool" where
  "isRewrite (EvCopyObject inp r) = (copy_MetadataDirective inp = Some MetadataDirectiveReplace)"
| "isRewrite ev = False"

text \<open>A service that gives the same five answers whatever it is asked.\<close>

definition constS3 ::
  "'e + HeadObjectOutput \<Rightarrow> 'e + unit \<Rightarrow> 'e + CreateMultipartUploadOutput
     \<Rightarrow> 'e + UploadPartCopyOutput \<Rightarrow> 'e + unit \<Rightarrow> 'e S3" where
  "constS3 h cp cr up cm =
     \<lparr>HeadObject = (\<lambda>tr inp. h), CopyObject = (\<lambda>tr inp. cp),
      CreateMultipartUpload = (\<lambda>tr inp. cr), UploadPartCopy = (\<lambda>tr inp. up),
      CompleteMultipartUpload = (\<lambda>tr inp. cm)\<rparr>"

definition headOf :: "int \<Rightarrow> HeadObjectOutput" where
  "headOf n = \<lparr>ContentLength = Some n, ContentType = Some ''video/mp4'', Metadata = []\<rparr>"

definition partOf :: "string \<Rightarrow> UploadPartCopyOutput" where
  "partOf etag = \<lparr>CopyPartResult = Some \<lparr>result_ETag = Some etag\<rparr>\<rparr>"

section \<open>What a run of the copy functions looks like\<close>

lemma copyPart_trace:
  "snd (copyPart c src dest uploadId partNum bytePosition lastB completedParts tr) =
     tr @ [EvUploadPartCopy (uploadPartCopyInput partNum src dest bytePosition lastB uploadId)
             (UploadPartCopy (s3client c) tr
                (uploadPartCopyInput partNum src dest bytePosition lastB uploadId))]"
  by (simp add: copyPart_def uploadPartCopy_def Let_def
      split: prod.splits sum.splits option.splits)

lemma copyParts_trace:
  "\<exists>evs. snd (copyParts c src dest uploadId objectSize bytePosition partNum completedParts tr)
           = tr @ evs \<and> list_all isUploadPartCopy evs"
proof (induction c src dest uploadId objectSize bytePosition partNum completedParts tr
    rule: copyParts.induct)
  case (1 c src dest uploadId objectSize bytePosition partNum completedParts tr)
  show ?case
  proof (cases "bytePosition < objectSize")
    case False
    then show ?thesis by (simp add: copyParts.simps)
  next
    case True
    obtain r tr1 where body: "copyPart c src dest uploadId partNum bytePosition
        (lastByte (partSize c) objectSize bytePosition) completedParts tr = (r, tr1)"
      by (cases "copyPart c src dest uploadId partNum bytePosition
        (lastByte (partSize c) objectSize bytePosition) completedParts tr")
    from copyPart_trace [of c src dest uploadId partNum bytePosition
        "lastByte (partSize c) objectSize bytePosition" completedParts tr] body
    obtain ev where tr1: "tr1 = tr @ [ev]" and ev: "isUploadPartCopy ev"
      by auto
    show ?thesis
    proof (cases r)
      case (Inl ex)
      with True body tr1 ev show ?thesis
        by (subst copyParts.simps) simp
    next
      case (Inr parts')
      from "1.IH" [OF True body [symmetric] Inr]
      obtain evs where "snd (copyParts c src dest uploadId objectSize
          (wrap64 (bytePosition + partSize c)) (wrap64 (partNum + 1)) parts' tr1) = tr1 @ evs"
        and "list_all isUploadPartCopy evs" by blast
      with True body tr1 ev Inr show ?thesis
        by (subst copyParts.simps) simp
    qed
  qed
qed

lemma copyParts_never_returns_error:
  "fst (copyParts c src dest uploadId objectSize bytePosition partNum completedParts tr)
     \<noteq> Inl (Return (Some e))"
proof (induction c src dest uploadId objectSize bytePosition partNum completedParts tr
    rule: copyParts.induct)
  case (1 c src dest uploadId objectSize bytePosition partNum completedParts tr)
  show ?case
  proof (cases "bytePosition < objectSize")
    case False
    then show ?thesis by (simp add: copyParts.simps)
  next
    case True
    obtain r tr1 where body: "copyPart c src dest uploadId partNum bytePosition
        (lastByte (partSize c) objectSize bytePosition) completedParts tr = (r, tr1)"
      by (cases "copyPart c src dest uploadId partNum bytePosition
        (lastByte (partSize c) objectSize bytePosition) completedParts tr")
    show ?thesis
    proof (cases r)
      case (Inl ex)
      from body Inl have "ex \<noteq> Return (Some e)"
        by (auto simp: copyPart_def Let_def
            split: prod.splits sum.splits option.splits if_splits)
      with True body Inl show ?thesis
        by (subst copyParts.simps) simp
    next
      case (Inr parts')
      from "1.IH" [OF True body [symmetric] Inr] True body Inr show ?thesis
        by (subst copyParts.simps) simp
    qed
  qed
qed

lemma copyToMultiPart_trace:
  "\<exists>r evs. snd (copyToMultiPart c src dest tr)
      = tr @ EvHeadObject \<lparr>head_Bucket = bucket src, head_Key = key src\<rparr> r # evs
      \<and> \<not> list_ex isCopyObject evs"
proof -
  have no_copy: "\<not> list_ex isCopyObject evs" if "list_all isUploadPartCopy evs"
    for evs :: "'a trace"
    using that by (induction evs) (auto elim: isUploadPartCopy.elims)
  show ?thesis
  proof (cases "headObject c src tr")
    case (Pair h tr1)
    then have tr1: "tr1 = tr @ [EvHeadObject \<lparr>head_Bucket = bucket src, head_Key = key src\<rparr> h]"
      by (auto simp: headObject_def Let_def)
    show ?thesis
    proof (cases h)
      case (Inl err)
      with Pair tr1 show ?thesis by (simp add: copyToMultiPart_def)
    next
      case (Inr head)
      obtain cr tr2 where cr: "createMultiPartUpload c dest head tr1 = (cr, tr2)"
        by (cases "createMultiPartUpload c dest head tr1")
      then obtain ev where tr2: "tr2 = tr1 @ [ev]" "\<not> isCopyObject ev"
        by (auto simp: createMultiPartUpload_def Let_def)
      show ?thesis
      proof (cases cr)
        case (Inl err)
        with Pair Inr cr tr1 tr2 show ?thesis by (simp add: copyToMultiPart_def)
      next
        case init: (Inr multipartUploadInit)
        show ?thesis
        proof (cases "ContentLength head")
          case None
          with Pair Inr cr tr1 tr2 init show ?thesis by (simp add: copyToMultiPart_def)
        next
          case (Some objectSize)
          define n where "n = partsSize objectSize (partSize c)"
          show ?thesis
          proof (cases "n < 0 \<or> maxSliceLen < n")
            case True
            with Pair Inr cr tr1 tr2 init Some show ?thesis
              by (auto simp: copyToMultiPart_def Let_def n_def)
          next
            case False
            obtain lr tr3 where loop: "copyParts c src dest (UploadId multipartUploadInit)
                objectSize 0 1 (replicate (nat n) None) tr2 = (lr, tr3)"
              by (cases "copyParts c src dest (UploadId multipartUploadInit)
                objectSize 0 1 (replicate (nat n) None) tr2")
            with copyParts_trace [of c src dest "UploadId multipartUploadInit" objectSize 0 1
                "replicate (nat n) None" tr2]
            obtain evs where tr3: "tr3 = tr2 @ evs" and evs: "list_all isUploadPartCopy evs"
              by auto
            from Pair Inr cr tr1 tr2 init Some False loop tr3 no_copy [OF evs]
            show ?thesis
              unfolding n_def by (cases lr) (simp_all add: copyToMultiPart_def Let_def)
          qed
        qed
      qed
    qed
  qed
qed

section \<open>The source locator\<close>

text \<open>
  Claim C9. The source locator of an object reference is its bucket, then \<open>/\<close>, then its
  key; it is the copy source of the single-shot copy and of every part copy.
\<close>

theorem bucketKeyPath_is_bucket_slash_key:
  "bucketKeyPath \<lparr>bucket = b, key = k\<rparr> = b @ ''/'' @ k
   \<and> copy_CopySource (copyToSinglePartInput src dest) = bucket src @ ''/'' @ key src
   \<and> part_CopySource (uploadPartCopyInput partNum src dest bytePosition lastB uploadId)
       = bucket src @ ''/'' @ key src"
  by (simp add: bucketKeyPath_def copyToSinglePartInput_def uploadPartCopyInput_def)

section \<open>The slice of the entity tag\<close>

lemma goSlice_etag:
  "goSlice etag 1 (int (length etag) - 1) =
     (if length etag < 2 then Inl SliceBoundsOutOfRange else Inr (butlast (tl etag)))"
proof (cases "length etag < 2")
  case True
  then show ?thesis by (auto simp: goSlice_def)
next
  case False
  then have "take (length etag - 2) (drop 1 etag) = butlast (tl etag)"
    by (simp add: butlast_conv_take drop_Suc numeral_2_eq_2)
  moreover from False have "nat (int (length etag) - 1 - 1) = length etag - 2" by simp
  ultimately show ?thesis using False by (simp add: goSlice_def)
qed

text \<open>
  Claim C10. When a part copy returns an entity tag, the slice
  \<^verbatim>\<open>etag[1 : len(etag)-1]\<close> panics with slice bounds out of range if the tag has
  length 0 or 1, and the copy of that part ends there; if the tag has length at least 2
  the slice yields the tag without its first and last byte and that panic does not
  occur.
\<close>

theorem copyPart_etag_slice:
  assumes "UploadPartCopy (s3client c) tr
             (uploadPartCopyInput partNum src dest bytePosition lastB uploadId) = Inr out"
    and "CopyPartResult out = Some cpr"
    and "result_ETag cpr = Some etag"
  shows "(length etag < 2 \<longrightarrow>
            fst (copyPart c src dest uploadId partNum bytePosition lastB completedParts tr)
              = Inl (Panic SliceBoundsOutOfRange)
            \<and> goSlice etag 1 (int (length etag) - 1) = Inl SliceBoundsOutOfRange)
       \<and> (2 \<le> length etag \<longrightarrow>
            fst (copyPart c src dest uploadId partNum bytePosition lastB completedParts tr)
              \<noteq> Inl (Panic SliceBoundsOutOfRange)
            \<and> goSlice etag 1 (int (length etag) - 1) = Inr (butlast (tl etag)))"
  using assms
  by (auto simp: copyPart_def uploadPartCopy_def Let_def goSlice_etag)

theorem copyPart_etag_slice_witness:
  "fst (copyPart (NewS3Copier (constS3 (Inr (headOf 12582912)) (Inr ())
            (Inr \<lparr>UploadId = Some ''u1''\<rparr>) (Inr (partOf ''x'')) (Inr ()) :: string S3))
          \<lparr>bucket = ''from'', key = ''k''\<rparr> \<lparr>bucket = ''to'', key = ''k''\<rparr>
          (Some ''u1'') 1 0 10485759 [None, None] [])
     = Inl (Panic SliceBoundsOutOfRange)
   \<and> fst (copyPart (NewS3Copier (constS3 (Inr (headOf 12582912)) (Inr ())
            (Inr \<lparr>UploadId = Some ''u1''\<rparr>) (Inr (partOf [CHR 0x22, CHR 0x22])) (Inr ())
              :: string S3))
          \<lparr>bucket = ''from'', key = ''k''\<rparr> \<lparr>bucket = ''to'', key = ''k''\<rparr>
          (Some ''u1'') 1 0 10485759 [None, None] [])
     \<noteq> Inl (Panic SliceBoundsOutOfRange)"
  using copyPart_etag_slice [of
      "NewS3Copier (constS3 (Inr (headOf 12582912)) (Inr ())
            (Inr \<lparr>UploadId = Some ''u1''\<rparr>) (Inr (partOf ''x'')) (Inr ()) :: string S3)"
      "[]" 1 "\<lparr>bucket = ''from'', key = ''k''\<rparr>" "\<lparr>bucket = ''to'', key = ''k''\<rparr>"
      0 10485759 "Some ''u1''" "partOf ''x''" "\<lparr>result_ETag = Some ''x''\<rparr>" "''x''"
      "[None, None]"]
    copyPart_etag_slice [of
      "NewS3Copier (constS3 (Inr (headOf 12582912)) (Inr ())
            (Inr \<lparr>UploadId = Some ''u1''\<rparr>) (Inr (partOf [CHR 0x22, CHR 0x22])) (Inr ())
              :: string S3)"
      "[]" 1 "\<lparr>bucket = ''from'', key = ''k''\<rparr>" "\<lparr>bucket = ''to'', key = ''k''\<rparr>"
      0 10485759 "Some ''u1''" "partOf [CHR 0x22, CHR 0x22]"
      "\<lparr>result_ETag = Some [CHR 0x22, CHR 0x22]\<rparr>" "[CHR 0x22, CHR 0x22]"
      "[None, None]"]
  by (simp add: NewS3Copier_def constS3_def partOf_def)

section \<open>A failed part copy\<close>

text \<open>
  Claim C1 asks that a failed part copy be returned to the caller. The loop never
  returns an error: line 172 returns \<^verbatim>\<open>nil\<close>.
\<close>

lemma copyPart_failure_returns_nil:
  assumes "UploadPartCopy (s3client c) tr
             (uploadPartCopyInput partNum src dest bytePosition lastB uploadId) = Inl err"
  shows "fst (copyPart c src dest uploadId partNum bytePosition lastB completedParts tr)
           = Inl (Return None)"
  using assms by (simp add: copyPart_def uploadPartCopy_def Let_def)

text \<open>
  Claim C1, on a 12 MiB object whose first part copy fails with \<open>PartCopyError\<close>: the
  run stops after that request and \<^verbatim>\<open>copyToMultiPart\<close> returns \<^verbatim>\<open>nil\<close>, not the
  error.
\<close>

theorem copyToMultiPart_part_failure_returns_nil:
  "copyToMultiPart
     (NewS3Copier (constS3 (Inr (headOf 12582912)) (Inr ()) (Inr \<lparr>UploadId = Some ''u1''\<rparr>)
        (Inl ''PartCopyError'') (Inr ())))
     \<lparr>bucket = ''from'', key = ''k''\<rparr> \<lparr>bucket = ''to'', key = ''k''\<rparr> []
   = (Return None,
      [EvHeadObject \<lparr>head_Bucket = ''from'', head_Key = ''k''\<rparr> (Inr (headOf 12582912)),
       EvCreateMultipartUpload
         \<lparr>create_Bucket = ''to'', create_Key = ''k'', create_ContentType = Some ''video/mp4'',
          create_Metadata = []\<rparr>
         (Inr \<lparr>UploadId = Some ''u1''\<rparr>),
       EvUploadPartCopy
         \<lparr>part_Bucket = ''to'', part_CopySource = ''from/k'',
          part_CopySourceRange = ''bytes=0-10485759'', part_Key = ''k'', part_PartNumber = 1,
          part_UploadId = Some ''u1''\<rparr>
         (Inl ''PartCopyError'')])"
  by code_simp

section \<open>Single-shot or multi-part\<close>

text \<open>
  A single-shot copy is a copy request without a metadata directive; the multi-part
  path is made of the create, part copy and complete requests.
\<close>

fun isSingleShot :: "'e event \<Rightarrow> bool" where
  "isSingleShot (EvCopyObject inp r) = (copy_MetadataDirective inp = None)"
| "isSingleShot ev = False"

fun isMultipart :: "'e event \<Rightarrow> bool" where
  "isMultipart (EvCreateMultipartUpload inp r) = True"
| "isMultipart (EvUploadPartCopy inp r) = True"
| "isMultipart (EvCompleteMultipartUpload inp r) = True"
| "isMultipart ev = False"

lemma copyToSinglePart_trace:
  "snd (copyToSinglePart c src dest tr) =
     tr @ [EvCopyObject (copyToSinglePartInput src dest)
             (CopyObject (s3client c) tr (copyToSinglePartInput src dest))]"
  by (simp add: copyToSinglePart_def Let_def)

lemma no_copy_no_single_shot: "\<not> list_ex isCopyObject evs \<Longrightarrow> \<not> list_ex isSingleShot evs"
  by (induction evs) (auto elim: isSingleShot.elims)

lemma no_copy_no_rewrite: "\<not> list_ex isCopyObject evs \<Longrightarrow> \<not> list_ex isRewrite evs"
  by (induction evs) (auto elim: isRewrite.elims)

text \<open>
  Claim C4. Once the metadata fetch has given the object size and the manifest fix-up
  (if the key asks for one) has succeeded, \<^verbatim>\<open>CopyTo\<close> continues with the single-shot
  copy exactly when the size is at most 5 MiB, and with the multi-part copy otherwise.
  The single-shot path issues one copy request and nothing else; the multi-part path
  issues no single-shot copy. A size of 0 takes the single-shot path and issues no
  request of the multi-part protocol.
\<close>

theorem CopyTo_strategy:
  assumes head: "headObject c src tr = (Inr head, tr1)"
    and rewrite: "(if suffix ''.m3u8'' (key src) then ensureContentTypeM3u8 c src tr1
                   else (None, tr1)) = (None, tr2)"
    and size: "ContentLength head = Some objectSize"
  shows "(objectSize \<le> 5 * 1024 * 1024 \<longrightarrow>
            CopyTo c src dest tr = copyToSinglePart c src dest tr2
            \<and> (\<exists>r. drop (length tr2) (snd (CopyTo c src dest tr))
                    = [EvCopyObject (copyToSinglePartInput src dest) r]))
       \<and> (5 * 1024 * 1024 < objectSize \<longrightarrow>
            CopyTo c src dest tr = copyToMultiPart c src dest tr2
            \<and> \<not> list_ex isSingleShot (drop (length tr2) (snd (CopyTo c src dest tr))))
       \<and> (list_ex isSingleShot (drop (length tr2) (snd (CopyTo c src dest tr)))
            \<longleftrightarrow> objectSize \<le> 5 * 1024 * 1024)
       \<and> (objectSize = 0 \<longrightarrow>
            \<not> list_ex isMultipart (drop (length tr2) (snd (CopyTo c src dest tr))))"
proof -
  have eq: "CopyTo c src dest tr =
      (if objectSize \<le> FIVE_MB then copyToSinglePart c src dest tr2
       else copyToMultiPart c src dest tr2)"
    using head rewrite size by (simp add: CopyTo_def)
  have single: "drop (length tr2) (snd (copyToSinglePart c src dest tr2))
      = [EvCopyObject (copyToSinglePartInput src dest)
           (CopyObject (s3client c) tr2 (copyToSinglePartInput src dest))]"
    by (simp add: copyToSinglePart_trace)
  have single_shot: "isSingleShot (EvCopyObject (copyToSinglePartInput src dest) r)" for r :: "'a + unit"
    by (simp add: copyToSinglePartInput_def)
  obtain r evs where multi: "snd (copyToMultiPart c src dest tr2)
      = tr2 @ EvHeadObject \<lparr>head_Bucket = bucket src, head_Key = key src\<rparr> r # evs"
    and evs: "\<not> list_ex isCopyObject evs"
    using copyToMultiPart_trace [of c src dest tr2] by blast
  from evs have no_single: "\<not> list_ex isSingleShot
      (drop (length tr2) (snd (copyToMultiPart c src dest tr2)))"
    using no_copy_no_single_shot [OF evs] by (simp add: multi)
  show ?thesis
  proof (cases "objectSize \<le> FIVE_MB")
    case True
    with eq single single_shot show ?thesis
      by (auto simp: FIVE_MB_def)
  next
    case False
    with eq no_single show ?thesis
      by (auto simp: FIVE_MB_def)
  qed
qed

theorem CopyTo_strategy_witness:
  "(\<exists>r. drop 1 (snd (CopyTo (NewS3Copier (constS3 (Inr (headOf 5242880)) (Inr ())
              (Inr \<lparr>UploadId = Some ''u1''\<rparr>) (Inr (partOf ''x'')) (Inr ()) :: string S3))
            \<lparr>bucket = ''from'', key = ''k''\<rparr> \<lparr>bucket = ''to'', key = ''k''\<rparr> []))
        = [EvCopyObject (copyToSinglePartInput \<lparr>bucket = ''from'', key = ''k''\<rparr>
                           \<lparr>bucket = ''to'', key = ''k''\<rparr>) r])
   \<and> \<not> list_ex isSingleShot
        (drop 1 (snd (CopyTo (NewS3Copier (constS3 (Inr (headOf 5242881)) (Inr ())
              (Inr \<lparr>UploadId = Some ''u1''\<rparr>) (Inr (partOf ''x'')) (Inr ()) :: string S3))
            \<lparr>bucket = ''from'', key = ''k''\<rparr> \<lparr>bucket = ''to'', key = ''k''\<rparr> [])))
   \<and> \<not> list_ex isMultipart
        (drop 1 (snd (CopyTo (NewS3Copier (constS3 (Inr (headOf 0)) (Inr ())
              (Inr \<lparr>UploadId = Some ''u1''\<rparr>) (Inr (partOf ''x'')) (Inr ()) :: string S3))
            \<lparr>bucket = ''from'', key = ''k''\<rparr> \<lparr>bucket = ''to'', key = ''k''\<rparr> [])))"
proof -
  let ?src = "\<lparr>bucket = ''from'', key = ''k''\<rparr>"
  let ?dest = "\<lparr>bucket = ''to'', key = ''k''\<rparr>"
  let ?c = "\<lambda>n. NewS3Copier (constS3 (Inr (headOf n)) (Inr ())
              (Inr \<lparr>UploadId = Some ''u1''\<rparr>) (Inr (partOf ''x'')) (Inr ()) :: string S3)"
  let ?tr1 = "\<lambda>n. [EvHeadObject \<lparr>head_Bucket = ''from'', head_Key = ''k''\<rparr>
                      (Inr (headOf n) :: string + HeadObjectOutput)]"
  have head: "headObject (?c n) ?src [] = (Inr (headOf n), ?tr1 n)" for n
    by (simp add: headObject_def NewS3Copier_def constS3_def Let_def)
  have rewrite: "(if suffix ''.m3u8'' (key ?src) then ensureContentTypeM3u8 (?c n) ?src (?tr1 n)
                   else (None, ?tr1 n)) = (None, ?tr1 n)" for n
    by (simp add: suffix_def)
  have size: "ContentLength (headOf n) = Some n" for n
    by (simp add: headOf_def)
  have a: "\<exists>r. drop 1 (snd (CopyTo (?c 5242880) ?src ?dest []))
        = [EvCopyObject (copyToSinglePartInput ?src ?dest) r]"
    using CopyTo_strategy [OF head rewrite size, of 5242880 ?dest, THEN conjunct1] by auto
  have b: "\<not> list_ex isSingleShot (drop 1 (snd (CopyTo (?c 5242881) ?src ?dest [])))"
    using CopyTo_strategy [OF head rewrite size, of 5242881 ?dest, THEN conjunct2, THEN conjunct1]
    by auto
  have c: "\<not> list_ex isMultipart (drop 1 (snd (CopyTo (?c 0) ?src ?dest [])))"
    using CopyTo_strategy [OF head rewrite size, of 0 ?dest, THEN conjunct2, THEN conjunct2,
        THEN conjunct2]
    by auto
  from a b c show ?thesis by blast
qed

section \<open>The manifest content type\<close>

lemma CopyTo_rewrite_after_head:
  assumes head: "headObject c src tr = (Inr head, tr1)"
  shows "(suffix ''.m3u8'' (key src) \<longrightarrow>
           (\<exists>r rest.
              snd (CopyTo c src dest tr)
                = tr1 @ EvCopyObject (ensureContentTypeM3u8Input src) r # rest
              \<and> r = CopyObject (s3client c) tr1 (ensureContentTypeM3u8Input src)
              \<and> \<not> list_ex isRewrite rest
              \<and> (\<forall>e. r = Inl e \<longrightarrow> fst (CopyTo c src dest tr) = Return (Some e) \<and> rest = []))
           \<and> length (filter isRewrite (drop (length tr) (snd (CopyTo c src dest tr)))) = 1)
       \<and> (\<not> suffix ''.m3u8'' (key src) \<longrightarrow>
             \<not> list_ex isRewrite (drop (length tr) (snd (CopyTo c src dest tr))))
       \<and> ensureContentTypeM3u8Input src =
            \<lparr>copy_Bucket = bucket src, copy_Key = key src,
             copy_ContentType = Some ''application/vnd.apple.mpegurl'',
             copy_CopySource = bucket src @ ''/'' @ key src,
             copy_MetadataDirective = Some ''REPLACE''\<rparr>"
proof -
  let ?rw = "ensureContentTypeM3u8Input src"
  from head have tr1: "tr1 = tr @ [EvHeadObject \<lparr>head_Bucket = bucket src, head_Key = key src\<rparr>
      (Inr head)]"
    by (auto simp: headObject_def Let_def)
  have data: "\<exists>rest. snd (if objectSize \<le> FIVE_MB then copyToSinglePart c src dest tr2
                         else copyToMultiPart c src dest tr2) = tr2 @ rest
                  \<and> \<not> list_ex isRewrite rest" for objectSize and tr2 :: "'a trace"
  proof (cases "objectSize \<le> FIVE_MB")
    case True
    then show ?thesis
      by (simp add: copyToSinglePart_trace copyToSinglePartInput_def)
  next
    case False
    obtain r evs where "snd (copyToMultiPart c src dest tr2)
        = tr2 @ EvHeadObject \<lparr>head_Bucket = bucket src, head_Key = key src\<rparr> r # evs"
      and "\<not> list_ex isCopyObject evs"
      using copyToMultiPart_trace [of c src dest tr2] by blast
    with False no_copy_no_rewrite [of evs] show ?thesis by simp
  qed
  have rest: "\<exists>rest. snd (case ContentLength head of
                 None \<Rightarrow> (Panic NilPointerDereference, tr2)
               | Some objectSize \<Rightarrow>
                   if objectSize \<le> FIVE_MB then copyToSinglePart c src dest tr2
                   else copyToMultiPart c src dest tr2) = tr2 @ rest
               \<and> \<not> list_ex isRewrite rest" for tr2 :: "'a trace"
    using data [of _ tr2] by (cases "ContentLength head") simp_all
  have input: "?rw = \<lparr>copy_Bucket = bucket src, copy_Key = key src,
             copy_ContentType = Some ''application/vnd.apple.mpegurl'',
             copy_CopySource = bucket src @ ''/'' @ key src,
             copy_MetadataDirective = Some ''REPLACE''\<rparr>"
    by (simp add: ensureContentTypeM3u8Input_def bucketKeyPath_def MetadataDirectiveReplace_def)
  have is_rw: "isRewrite (EvCopyObject ?rw r)" for r :: "'a + unit"
    by (simp add: ensureContentTypeM3u8Input_def)
  show ?thesis
  proof (cases "suffix ''.m3u8'' (key src)")
    case False
    from rest [of tr1] obtain evs where "snd (CopyTo c src dest tr) = tr1 @ evs"
      and "\<not> list_ex isRewrite evs"
      using head False by (auto simp: CopyTo_def)
    with False input show ?thesis by (simp add: tr1)
  next
    case True
    let ?r = "CopyObject (s3client c) tr1 ?rw"
    let ?tr2 = "tr1 @ [EvCopyObject ?rw ?r]"
    show ?thesis
    proof (cases ?r)
      case (Inl e)
      with head True have "CopyTo c src dest tr = (Return (Some e), ?tr2)"
        by (simp add: CopyTo_def ensureContentTypeM3u8_def Let_def)
      with True Inl input is_rw [of ?r] show ?thesis
        by (simp add: tr1)
    next
      case (Inr u)
      from rest [of ?tr2] obtain evs where "snd (CopyTo c src dest tr) = ?tr2 @ evs"
        and evs: "\<not> list_ex isRewrite evs"
        using head True Inr by (auto simp: CopyTo_def ensureContentTypeM3u8_def Let_def)
      moreover from evs have "filter isRewrite evs = []"
        by (induction evs) auto
      ultimately show ?thesis
        using True Inr input is_rw [of ?r] by (simp add: tr1)
    qed
  qed
qed

text \<open>
  A service that refuses every metadata rewrite with the given error and answers every
  other request as the given service does.
\<close>

definition refusingRewrites :: "'e \<Rightarrow> 'e S3 \<Rightarrow> 'e S3" where
  "refusingRewrites err s =
     s\<lparr>CopyObject := (\<lambda>tr inp.
          if copy_MetadataDirective inp = Some MetadataDirectiveReplace then Inl err
          else CopyObject s tr inp)\<rparr>"

text \<open>
  Claim C8. \<^verbatim>\<open>CopyTo\<close> first fetches the metadata of the source; when that fails it
  returns the error and asks for nothing else. After a successful fetch, for a key that
  ends in \<open>.m3u8\<close> the next request is the metadata rewrite: a copy of the source
  object onto itself with the metadata directive \<^verbatim>\<open>REPLACE\<close> and the content type
  \<open>application/vnd.apple.mpegurl\<close>, and its outcome is the answer of the storage
  service to that request. When the service answers with an error, \<^verbatim>\<open>CopyTo\<close> returns
  that error and the run ends with the rewrite: no data copy follows. When the service
  accepts the rewrite, the run goes on with the data copy (single-shot or multi-part by
  the size of the object), which asks for no further rewrite. So the run has exactly one
  rewrite, before every request of the data copy. For a key without that ending the
  run contains no rewrite.
\<close>

theorem CopyTo_manifest_rewrite:
  "(case HeadObject (s3client c) tr \<lparr>head_Bucket = bucket src, head_Key = key src\<rparr> of
      Inl err \<Rightarrow>
        CopyTo c src dest tr =
          (Return (Some err),
           tr @ [EvHeadObject \<lparr>head_Bucket = bucket src, head_Key = key src\<rparr> (Inl err)])
    | Inr head \<Rightarrow>
        (suffix ''.m3u8'' (key src) \<longrightarrow>
           (case CopyObject (s3client c)
                   (tr @ [EvHeadObject \<lparr>head_Bucket = bucket src, head_Key = key src\<rparr>
                            (Inr head)])
                   (ensureContentTypeM3u8Input src) of
              Inl e \<Rightarrow>
                CopyTo c src dest tr =
                  (Return (Some e),
                   tr @ [EvHeadObject \<lparr>head_Bucket = bucket src, head_Key = key src\<rparr> (Inr head),
                         EvCopyObject (ensureContentTypeM3u8Input src) (Inl e)])
            | Inr u \<Rightarrow>
                CopyTo c src dest tr =
                  (case ContentLength head of
                     None \<Rightarrow>
                       (Panic NilPointerDereference,
                        tr @ [EvHeadObject \<lparr>head_Bucket = bucket src, head_Key = key src\<rparr>
                                (Inr head),
                              EvCopyObject (ensureContentTypeM3u8Input src) (Inr u)])
                   | Some objectSize \<Rightarrow>
                       (if objectSize \<le> FIVE_MB then copyToSinglePart c src dest
                        else copyToMultiPart c src dest)
                         (tr @ [EvHeadObject \<lparr>head_Bucket = bucket src, head_Key = key src\<rparr>
                                  (Inr head),
                                EvCopyObject (ensureContentTypeM3u8Input src) (Inr u)]))
                \<and> (\<exists>rest.
                      snd (CopyTo c src dest tr)
                        = tr @ [EvHeadObject \<lparr>head_Bucket = bucket src, head_Key = key src\<rparr>
                                  (Inr head),
                                EvCopyObject (ensureContentTypeM3u8Input src) (Inr u)] @ rest
                      \<and> \<not> list_ex isRewrite rest))
           \<and> length (filter isRewrite (drop (length tr) (snd (CopyTo c src dest tr)))) = 1)
        \<and> (\<not> suffix ''.m3u8'' (key src) \<longrightarrow>
             \<not> list_ex isRewrite (drop (length tr) (snd (CopyTo c src dest tr)))))
   \<and> ensureContentTypeM3u8Input src =
        \<lparr>copy_Bucket = bucket src, copy_Key = key src,
         copy_ContentType = Some ''application/vnd.apple.mpegurl'',
         copy_CopySource = bucket src @ ''/'' @ key src,
         copy_MetadataDirective = Some ''REPLACE''\<rparr>"
proof (cases "HeadObject (s3client c) tr \<lparr>head_Bucket = bucket src, head_Key = key src\<rparr>")
  case (Inl err)
  then show ?thesis
    by (simp add: CopyTo_def headObject_def Let_def ensureContentTypeM3u8Input_def
        bucketKeyPath_def MetadataDirectiveReplace_def)
next
  case (Inr head)
  let ?tr1 = "tr @ [EvHeadObject \<lparr>head_Bucket = bucket src, head_Key = key src\<rparr> (Inr head)]"
  let ?rw = "ensureContentTypeM3u8Input src"
  from Inr have head: "headObject c src tr = (Inr head, ?tr1)"
    by (simp add: headObject_def Let_def)
  note after = CopyTo_rewrite_after_head [OF head, of dest]
  have rewrite: "case CopyObject (s3client c) ?tr1 ?rw of
        Inl e \<Rightarrow> CopyTo c src dest tr = (Return (Some e), ?tr1 @ [EvCopyObject ?rw (Inl e)])
      | Inr u \<Rightarrow>
          CopyTo c src dest tr =
            (case ContentLength head of
               None \<Rightarrow> (Panic NilPointerDereference, ?tr1 @ [EvCopyObject ?rw (Inr u)])
             | Some objectSize \<Rightarrow>
                 (if objectSize \<le> FIVE_MB then copyToSinglePart c src dest
                  else copyToMultiPart c src dest) (?tr1 @ [EvCopyObject ?rw (Inr u)]))
          \<and> (\<exists>rest. snd (CopyTo c src dest tr) = ?tr1 @ [EvCopyObject ?rw (Inr u)] @ rest
                \<and> \<not> list_ex isRewrite rest)"
    if m: "suffix ''.m3u8'' (key src)"
  proof (cases "CopyObject (s3client c) ?tr1 ?rw")
    case (Inl e)
    with head m show ?thesis
      by (simp add: CopyTo_def ensureContentTypeM3u8_def Let_def)
  next
    case answer: (Inr u)
    from head m answer have run: "CopyTo c src dest tr =
        (case ContentLength head of
           None \<Rightarrow> (Panic NilPointerDereference, ?tr1 @ [EvCopyObject ?rw (Inr u)])
         | Some objectSize \<Rightarrow>
             (if objectSize \<le> FIVE_MB then copyToSinglePart c src dest
              else copyToMultiPart c src dest) (?tr1 @ [EvCopyObject ?rw (Inr u)]))"
      by (simp add: CopyTo_def ensureContentTypeM3u8_def Let_def split: option.splits)
    from after m obtain r rest where
      "snd (CopyTo c src dest tr) = ?tr1 @ EvCopyObject ?rw r # rest"
      and "r = CopyObject (s3client c) ?tr1 ?rw" and "\<not> list_ex isRewrite rest"
      by blast
    with answer have "snd (CopyTo c src dest tr) = ?tr1 @ [EvCopyObject ?rw (Inr u)] @ rest
        \<and> \<not> list_ex isRewrite rest"
      by simp
    then have ex: "\<exists>rest. snd (CopyTo c src dest tr) = ?tr1 @ [EvCopyObject ?rw (Inr u)] @ rest
        \<and> \<not> list_ex isRewrite rest" ..
    show ?thesis unfolding answer sum.case by (rule conjI [OF run ex])
  qed
  from after have count: "suffix ''.m3u8'' (key src) \<Longrightarrow>
      length (filter isRewrite (drop (length tr) (snd (CopyTo c src dest tr)))) = 1"
    and none: "\<not> suffix ''.m3u8'' (key src) \<Longrightarrow>
      \<not> list_ex isRewrite (drop (length tr) (snd (CopyTo c src dest tr)))"
    and input: "?rw = \<lparr>copy_Bucket = bucket src, copy_Key = key src,
         copy_ContentType = Some ''application/vnd.apple.mpegurl'',
         copy_CopySource = bucket src @ ''/'' @ key src,
         copy_MetadataDirective = Some ''REPLACE''\<rparr>"
    by blast+
  show ?thesis
  proof (cases "suffix ''.m3u8'' (key src)")
    case True
    from rewrite [OF True] count [OF True] True input Inr show ?thesis
      by (simp only: sum.case simp_thms append_Cons append_Nil append_assoc)
  next
    case False
    from none [OF False] False input Inr show ?thesis
      by (simp only: sum.case simp_thms)
  qed
qed

theorem CopyTo_manifest_rewrite_witness:
  "CopyTo
     (NewS3Copier (refusingRewrites ''RewriteError''
        (constS3 (Inr (headOf 1024)) (Inr ()) (Inr \<lparr>UploadId = Some ''u1''\<rparr>)
           (Inr (partOf ''x'')) (Inr ()))))
     \<lparr>bucket = ''from'', key = ''list.m3u8''\<rparr> \<lparr>bucket = ''to'', key = ''list.m3u8''\<rparr> []
   = (Return (Some ''RewriteError''),
      [EvHeadObject \<lparr>head_Bucket = ''from'', head_Key = ''list.m3u8''\<rparr> (Inr (headOf 1024)),
       EvCopyObject
         \<lparr>copy_Bucket = ''from'', copy_Key = ''list.m3u8'',
          copy_ContentType = Some ''application/vnd.apple.mpegurl'',
          copy_CopySource = ''from/list.m3u8'', copy_MetadataDirective = Some ''REPLACE''\<rparr>
         (Inl ''RewriteError'')])
   \<and> CopyTo
     (NewS3Copier (refusingRewrites ''RewriteError''
        (constS3 (Inr (headOf 1024)) (Inr ()) (Inr \<lparr>UploadId = Some ''u1''\<rparr>)
           (Inr (partOf ''x'')) (Inr ()))))
     \<lparr>bucket = ''from'', key = ''video.ts''\<rparr> \<lparr>bucket = ''to'', key = ''video.ts''\<rparr> []
   = (Return None,
      [EvHeadObject \<lparr>head_Bucket = ''from'', head_Key = ''video.ts''\<rparr> (Inr (headOf 1024)),
       EvCopyObject
         \<lparr>copy_Bucket = ''to'', copy_Key = ''video.ts'', copy_ContentType = None,
          copy_CopySource = ''from/video.ts'', copy_MetadataDirective = None\<rparr>
         (Inr ())])
   \<and> CopyTo
     (NewS3Copier (constS3 (Inr (headOf 1024)) (Inr ()) (Inr \<lparr>UploadId = Some ''u1''\<rparr>)
        (Inr (partOf ''x'')) (Inr ()) :: string S3))
     \<lparr>bucket = ''from'', key = ''list.m3u8''\<rparr> \<lparr>bucket = ''to'', key = ''list.m3u8''\<rparr> []
   = (Return None,
      [EvHeadObject \<lparr>head_Bucket = ''from'', head_Key = ''list.m3u8''\<rparr> (Inr (headOf 1024)),
       EvCopyObject
         \<lparr>copy_Bucket = ''from'', copy_Key = ''list.m3u8'',
          copy_ContentType = Some ''application/vnd.apple.mpegurl'',
          copy_CopySource = ''from/list.m3u8'', copy_MetadataDirective = Some ''REPLACE''\<rparr>
         (Inr ()),
       EvCopyObject
         \<lparr>copy_Bucket = ''to'', copy_Key = ''list.m3u8'', copy_ContentType = None,
          copy_CopySource = ''from/list.m3u8'', copy_MetadataDirective = None\<rparr>
         (Inr ())])"
proof -
  let ?s = "constS3 (Inr (headOf 1024)) (Inr ()) (Inr \<lparr>UploadId = Some ''u1''\<rparr>)
        (Inr (partOf ''x'')) (Inr ()) :: string S3"
  let ?ok = "NewS3Copier ?s"
  let ?bad = "NewS3Copier (refusingRewrites ''RewriteError'' ?s)"
  let ?m = "\<lparr>bucket = ''from'', key = ''list.m3u8''\<rparr>"
  let ?m' = "\<lparr>bucket = ''to'', key = ''list.m3u8''\<rparr>"
  let ?v = "\<lparr>bucket = ''from'', key = ''video.ts''\<rparr>"
  let ?v' = "\<lparr>bucket = ''to'', key = ''video.ts''\<rparr>"
  have head_ok: "HeadObject (s3client ?ok) t i = Inr (headOf 1024)" for t i
    by (simp add: NewS3Copier_def constS3_def)
  have head_bad: "HeadObject (s3client ?bad) t i = Inr (headOf 1024)" for t i
    by (simp add: NewS3Copier_def constS3_def refusingRewrites_def)
  have copy_ok: "CopyObject (s3client ?ok) t i = Inr ()" for t i
    by (simp add: NewS3Copier_def constS3_def)
  have refused: "CopyObject (s3client ?bad) t (ensureContentTypeM3u8Input ?m)
      = Inl ''RewriteError''" for t
    by (simp add: NewS3Copier_def constS3_def refusingRewrites_def
        ensureContentTypeM3u8Input_def)
  have size: "ContentLength (headOf 1024) = Some 1024" "(1024 :: int) \<le> FIVE_MB"
    by (simp_all add: headOf_def FIVE_MB_def)
  have m: "suffix ''.m3u8'' (key ?m)" by (simp add: suffix_def)
  have v: "\<not> suffix ''.m3u8'' (key ?v)" by code_simp
  note inst_bad = CopyTo_manifest_rewrite [where c = ?bad and tr = "[]" and src = ?m
      and dest = ?m', unfolded head_bad refused sum.case]
  from inst_bad [THEN conjunct1, THEN conjunct1, rule_format, OF m, THEN conjunct1]
    inst_bad [THEN conjunct2]
  have a: "CopyTo ?bad ?m ?m' []
      = (Return (Some ''RewriteError''),
         [EvHeadObject \<lparr>head_Bucket = ''from'', head_Key = ''list.m3u8''\<rparr> (Inr (headOf 1024)),
          EvCopyObject
            \<lparr>copy_Bucket = ''from'', copy_Key = ''list.m3u8'',
             copy_ContentType = Some ''application/vnd.apple.mpegurl'',
             copy_CopySource = ''from/list.m3u8'', copy_MetadataDirective = Some ''REPLACE''\<rparr>
            (Inl ''RewriteError'')])"
    by simp
  have b: "CopyTo ?bad ?v ?v' []
      = (Return None,
         [EvHeadObject \<lparr>head_Bucket = ''from'', head_Key = ''video.ts''\<rparr> (Inr (headOf 1024)),
          EvCopyObject
            \<lparr>copy_Bucket = ''to'', copy_Key = ''video.ts'', copy_ContentType = None,
             copy_CopySource = ''from/video.ts'', copy_MetadataDirective = None\<rparr>
            (Inr ())])"
    by code_simp
  note inst_ok = CopyTo_manifest_rewrite [where c = ?ok and tr = "[]" and src = ?m
      and dest = ?m', unfolded head_ok copy_ok sum.case]
  from inst_ok [THEN conjunct1, THEN conjunct1, rule_format, OF m, THEN conjunct1, THEN conjunct1]
    inst_ok [THEN conjunct2]
  have c: "CopyTo ?ok ?m ?m' []
      = (Return None,
         [EvHeadObject \<lparr>head_Bucket = ''from'', head_Key = ''list.m3u8''\<rparr> (Inr (headOf 1024)),
          EvCopyObject
            \<lparr>copy_Bucket = ''from'', copy_Key = ''list.m3u8'',
             copy_ContentType = Some ''application/vnd.apple.mpegurl'',
             copy_CopySource = ''from/list.m3u8'', copy_MetadataDirective = Some ''REPLACE''\<rparr>
            (Inr ()),
          EvCopyObject
            \<lparr>copy_Bucket = ''to'', copy_Key = ''list.m3u8'', copy_ContentType = None,
             copy_CopySource = ''from/list.m3u8'', copy_MetadataDirective = None\<rparr>
            (Inr ())])"
    by (simp add: size copyToSinglePart_def copyToSinglePartInput_def bucketKeyPath_def
        Let_def copy_ok)
  from a b c show ?thesis by (simp only: simp_thms)
qed

section \<open>The manifest built by the loop\<close>

text \<open>
  What a successful part copy stores: the returned entity tag without its first and
  last byte, under the part number of the request.
\<close>

fun partStored :: "'e event \<Rightarrow> CompletedPart option" where
  "partStored (EvUploadPartCopy inp (Inr out)) =
     (case CopyPartResult out of
        None \<Rightarrow> None
      | Some cpr \<Rightarrow>
          (case result_ETag cpr of
             None \<Rightarrow> None
           | Some etag \<Rightarrow>
               if 2 \<le> length etag
               then Some \<lparr>ETag = butlast (tl etag), PartNumber = part_PartNumber inp\<rparr>
               else None))"
| "partStored ev = None"

lemma copyPart_Inr:
  assumes "copyPart c src dest uploadId partNum bytePosition lastB completedParts tr
             = (Inr parts', tr1)"
  shows "\<exists>ev. tr1 = tr @ [ev]
           \<and> isUploadPartCopy ev
           \<and> uploadPartInputs [ev]
               = [uploadPartCopyInput partNum src dest bytePosition lastB uploadId]
           \<and> partStored ev \<noteq> None
           \<and> parts' = completedParts [nat (wrap64 (partNum - 1)) := partStored ev]"
  using assms
  by (auto simp: copyPart_def uploadPartCopy_def Let_def goSlice_etag uploadPartCopyInput_def
      split: prod.splits sum.splits option.splits if_splits)

lemma uploadPartInputs_append [simp]:
  "uploadPartInputs (xs @ ys) = uploadPartInputs xs @ uploadPartInputs ys"
  by (induction xs rule: uploadPartInputs.induct) simp_all

lemma copyParts_parts:
  assumes "copyParts c src dest uploadId objectSize bytePosition partNum completedParts tr
             = (Inr parts', tr')"
  shows "\<exists>evs. tr' = tr @ evs
           \<and> list_all isUploadPartCopy evs
           \<and> list_all (\<lambda>ev. partStored ev \<noteq> None) evs
           \<and> (evs = [] \<longrightarrow> parts' = completedParts)
           \<and> (evs \<noteq> [] \<longrightarrow>
                 0 \<le> wrap64 (partNum - 1)
                 \<and> nat (wrap64 (partNum - 1)) + length evs \<le> length completedParts
                 \<and> parts' = take (nat (wrap64 (partNum - 1))) completedParts
                              @ map partStored evs
                              @ drop (nat (wrap64 (partNum - 1)) + length evs) completedParts)"
  using assms
proof (induction c src dest uploadId objectSize bytePosition partNum completedParts tr
    arbitrary: parts' tr' rule: copyParts.induct)
  case (1 c src dest uploadId objectSize bytePosition partNum completedParts tr)
  show ?case
  proof (cases "bytePosition < objectSize")
    case False
    with "1.prems" have "parts' = completedParts" "tr' = tr"
      by (simp_all add: copyParts.simps)
    then show ?thesis by simp
  next
    case True
    obtain r tr1 where body: "copyPart c src dest uploadId partNum bytePosition
        (lastByte (partSize c) objectSize bytePosition) completedParts tr = (r, tr1)"
      by (cases "copyPart c src dest uploadId partNum bytePosition
        (lastByte (partSize c) objectSize bytePosition) completedParts tr")
    show ?thesis
    proof (cases r)
      case (Inl ex)
      with True body "1.prems" show ?thesis
        by (simp add: copyParts.simps)
    next
      case (Inr parts1)
      define i where "i = wrap64 (partNum - 1)"
      from copyPart_Inr [OF body [unfolded Inr]]
      obtain ev where tr1: "tr1 = tr @ [ev]" and ev: "isUploadPartCopy ev" "partStored ev \<noteq> None"
        and parts1: "parts1 = completedParts [nat i := partStored ev]"
        unfolding i_def by blast
      from copyPart_Inr_index [OF body [unfolded Inr]]
      have i: "0 \<le> i" "i < int (length completedParts)"
        and len1: "length parts1 = length completedParts"
        unfolding i_def by simp_all
      from True body Inr "1.prems"
      have rest: "copyParts c src dest uploadId objectSize (wrap64 (bytePosition + partSize c))
          (wrap64 (partNum + 1)) parts1 tr1 = (Inr parts', tr')"
        by (simp add: copyParts.simps)
      from "1.IH" [OF True body [symmetric] Inr rest]
      obtain evs where tr': "tr' = tr1 @ evs"
        and all: "list_all isUploadPartCopy evs" "list_all (\<lambda>ev. partStored ev \<noteq> None) evs"
        and nil: "evs = [] \<longrightarrow> parts' = parts1"
        and cons: "evs \<noteq> [] \<longrightarrow>
                 0 \<le> wrap64 (wrap64 (partNum + 1) - 1)
                 \<and> nat (wrap64 (wrap64 (partNum + 1) - 1)) + length evs \<le> length parts1
                 \<and> parts' = take (nat (wrap64 (wrap64 (partNum + 1) - 1))) parts1
                              @ map partStored evs
                              @ drop (nat (wrap64 (wrap64 (partNum + 1) - 1)) + length evs) parts1"
        by blast
      have next_i: "wrap64 (wrap64 (partNum + 1) - 1) = wrap64 (i + 1)"
        using wrap64_wrap64_add [of "partNum + 1" "- 1"] wrap64_wrap64_add [of "partNum - 1" 1]
        by (simp add: i_def)
      have upd: "completedParts [nat i := x] = take (nat i) completedParts @ [x]
          @ drop (nat i + 1) completedParts" for x
        using i by (simp add: upd_conv_take_nth_drop)
      have "parts' = take (nat i) completedParts @ map partStored (ev # evs)
          @ drop (nat i + length (ev # evs)) completedParts"
      proof (cases "evs = []")
        case True
        with nil parts1 upd show ?thesis by simp
      next
        case False
        with cons have nonneg: "0 \<le> wrap64 (i + 1)"
          and parts': "parts' = take (nat (wrap64 (i + 1))) parts1 @ map partStored evs
              @ drop (nat (wrap64 (i + 1)) + length evs) parts1"
          by (simp_all add: next_i)
        have "in_int64 i" unfolding i_def by (rule wrap64_range)
        then have "i + 1 < 2 ^ 63 \<or> i + 1 = 2 ^ 63" by (auto simp: in_int64_def)
        moreover have "wrap64 (i + 1) = - (2 ^ 63)" if "i + 1 = 2 ^ 63"
          using that by (simp add: wrap64_def)
        ultimately have "i + 1 < 2 ^ 63" using nonneg by auto
        with i have w: "wrap64 (i + 1) = i + 1"
          by (intro wrap64_id) (simp add: in_int64_def)
        from i have n: "nat (i + 1) = nat i + 1" by simp
        from i have li: "nat i < length completedParts" by simp
        have "take (nat i + 1) parts1 = take (nat i) completedParts @ [partStored ev]"
          using li by (simp add: parts1 take_Suc_conv_app_nth)
        moreover have "drop (nat i + 1 + length evs) parts1
            = drop (nat i + 1 + length evs) completedParts"
          by (simp add: parts1)
        ultimately show ?thesis
          using parts' by (simp add: w n)
      qed
      moreover from cons i len1 have "nat i + length (ev # evs) \<le> length completedParts"
      proof (cases "evs = []")
        case True
        with i show ?thesis by simp
      next
        case False
        with cons have nonneg: "0 \<le> wrap64 (i + 1)"
          and le: "nat (wrap64 (i + 1)) + length evs \<le> length parts1"
          by (simp_all add: next_i)
        have "in_int64 i" unfolding i_def by (rule wrap64_range)
        then have "i + 1 < 2 ^ 63 \<or> i + 1 = 2 ^ 63" by (auto simp: in_int64_def)
        moreover have "wrap64 (i + 1) = - (2 ^ 63)" if "i + 1 = 2 ^ 63"
          using that by (simp add: wrap64_def)
        ultimately have "i + 1 < 2 ^ 63" using nonneg by auto
        with i have w: "wrap64 (i + 1) = i + 1"
          by (intro wrap64_id) (simp add: in_int64_def)
        from le i len1 show ?thesis by (simp add: w nat_add_distrib)
      qed
      ultimately show ?thesis
        using tr1 tr' ev all i unfolding i_def [symmetric]
        by (intro exI [of _ "ev # evs"]) simp
    qed
  qed
qed

section \<open>The byte ranges of the parts\<close>

text \<open>\<open>ceilDiv a b\<close> is the ceiling of \<open>a / b\<close> for a positive \<open>b\<close>.\<close>

definition ceilDiv :: "int \<Rightarrow> int \<Rightarrow> int" where
  "ceilDiv a b = (a + b - 1) div b"

text \<open>
  The Part Descriptors of the specification (part number, first byte, last byte), in
  closed form: part \<open>i + 1\<close> spans the bytes from \<open>i * partSize\<close> to
  \<open>min((i + 1) * partSize, objectSize) - 1\<close>, for \<open>i\<close> below the ceiling of
  \<open>objectSize / partSize\<close>. The loop of \<^verbatim>\<open>copyToMultiPart\<close> is compared with them.
\<close>

definition partDescriptor :: "int \<Rightarrow> int \<Rightarrow> int \<Rightarrow> int \<times> int \<times> int" where
  "partDescriptor objectSize psize i =
     (i + 1, i * psize, min ((i + 1) * psize) objectSize - 1)"

definition plannedParts :: "int \<Rightarrow> int \<Rightarrow> (int \<times> int \<times> int) list" where
  "plannedParts objectSize psize =
     map (partDescriptor objectSize psize) [0..ceilDiv objectSize psize - 1]"

text \<open>The part copy request for a descriptor.\<close>

definition plannedInput ::
  "S3Object \<Rightarrow> S3Object \<Rightarrow> string option \<Rightarrow> int \<times> int \<times> int \<Rightarrow> UploadPartCopyInput" where
  "plannedInput src dest uploadId d =
     (case d of (partNum, startByte, endByte) \<Rightarrow>
        uploadPartCopyInput partNum src dest startByte endByte uploadId)"

text \<open>
  \<open>descriptorsFrom num pos ds end\<close>: the descriptors \<open>ds\<close> are numbered \<open>num\<close>,
  \<open>num + 1\<close>, ..., each is a non-empty range of bytes, the first starts at \<open>pos\<close>, each
  next one starts one byte after its predecessor ends, and the last ends at byte
  \<open>end - 1\<close>. So \<open>descriptorsFrom 1 0 ds objectSize\<close> says that \<open>ds\<close> splits
  \<open>[0, objectSize)\<close> into contiguous ranges without gap or overlap.
\<close>

fun descriptorsFrom :: "int \<Rightarrow> int \<Rightarrow> (int \<times> int \<times> int) list \<Rightarrow> int \<Rightarrow> bool" where
  "descriptorsFrom num pos [] end = (pos = end)"
| "descriptorsFrom num pos ((k, a, b) # ds) end =
     (k = num \<and> a = pos \<and> a \<le> b \<and> descriptorsFrom (num + 1) (b + 1) ds end)"

lemma ceilDiv_bounds:
  assumes "0 < b"
  shows "(ceilDiv a b - 1) * b < a" "a \<le> ceilDiv a b * b"
proof -
  define q r where "q = (a + b - 1) div b" and "r = (a + b - 1) mod b"
  have eq: "a + b - 1 = q * b + r" by (simp add: q_def r_def)
  have r: "0 \<le> r" "r < b" using assms by (simp_all add: r_def)
  have "q * b = a + b - 1 - r" using eq by simp
  with r show "(ceilDiv a b - 1) * b < a" "a \<le> ceilDiv a b * b"
    by (simp_all add: ceilDiv_def q_def [symmetric] algebra_simps)
qed

lemma ceilDiv_ceiling:
  assumes "0 < b"
  shows "\<lceil>rat_of_int a / rat_of_int b\<rceil> = ceilDiv a b"
proof (rule ceiling_unique)
  from assms have b: "0 < rat_of_int b" by simp
  from ceilDiv_bounds [OF assms, of a]
  have "rat_of_int ((ceilDiv a b - 1) * b) < rat_of_int a"
    and "rat_of_int a \<le> rat_of_int (ceilDiv a b * b)"
    by (simp_all only: of_int_less_iff of_int_le_iff)
  then show "rat_of_int (ceilDiv a b) - 1 < rat_of_int a / rat_of_int b"
    and "rat_of_int a / rat_of_int b \<le> rat_of_int (ceilDiv a b)"
    using b by (simp_all add: pos_less_divide_eq pos_divide_le_eq)
qed

lemma mult_le_mono_int: "0 < (b::int) \<Longrightarrow> k \<le> n \<Longrightarrow> k * b \<le> n * b"
  by (simp add: mult_right_mono)

lemma below_ceilDiv:
  assumes "0 < b" "k < ceilDiv a b"
  shows "k * b < a"
proof -
  from assms have "k * b \<le> (ceilDiv a b - 1) * b"
    by (intro mult_le_mono_int) simp_all
  with ceilDiv_bounds(1) [OF assms(1), of a] show ?thesis by simp
qed

lemma lastByte_planned:
  assumes b: "0 < psize" and a: "0 < objectSize"
    and fits: "ceilDiv objectSize psize * psize < 2 ^ 63"
    and k: "0 \<le> k" "k < ceilDiv objectSize psize"
  shows "lastByte psize objectSize (k * psize) = min ((k + 1) * psize) objectSize - 1"
    and "wrap64 (k * psize + psize) = (k + 1) * psize"
    and "wrap64 (k + 1) = k + 1"
    and "k * psize < objectSize"
proof -
  let ?N = "ceilDiv objectSize psize"
  from k b have next_le: "(k + 1) * psize \<le> ?N * psize"
    by (intro mult_le_mono_int) simp_all
  from k b have "0 \<le> k * psize" by simp
  with b have pos: "0 < (k + 1) * psize" by (simp add: algebra_simps)
  from next_le fits pos have r1: "in_int64 ((k + 1) * psize)" "in_int64 ((k + 1) * psize - 1)"
    by (simp_all add: in_int64_def)
  from ceilDiv_bounds(2) [OF b, of objectSize] fits a
  have r2: "in_int64 (objectSize - 1)" by (simp add: in_int64_def)
  have "(k + 1) * 1 \<le> (k + 1) * psize" using b k by (intro mult_left_mono) simp_all
  then have "k + 1 \<le> (k + 1) * psize" by (simp only: mult_1_right)
  with next_le fits k have r3: "in_int64 (k + 1)" unfolding in_int64_def by linarith
  show "wrap64 (k * psize + psize) = (k + 1) * psize"
    using wrap64_id [OF r1(1)] by (simp add: algebra_simps)
  then show "lastByte psize objectSize (k * psize) = min ((k + 1) * psize) objectSize - 1"
    using wrap64_id [OF r1(2)] wrap64_id [OF r2]
    by (simp add: lastByte_def Let_def min_def)
  show "wrap64 (k + 1) = k + 1" by (rule wrap64_id [OF r3])
  show "k * psize < objectSize" by (rule below_ceilDiv [OF b k(2)])
qed

lemma descriptorsFrom_planned:
  assumes b: "0 < psize" and k: "0 \<le> k" "k \<le> ceilDiv objectSize psize"
  shows "descriptorsFrom (k + 1) (min (k * psize) objectSize)
           (map (partDescriptor objectSize psize) [k..ceilDiv objectSize psize - 1]) objectSize"
  using k
proof (induction "nat (ceilDiv objectSize psize - k)" arbitrary: k)
  case 0
  then have "k = ceilDiv objectSize psize" by simp
  with ceilDiv_bounds(2) [OF b, of objectSize] show ?case by simp
next
  case (Suc n)
  let ?N = "ceilDiv objectSize psize"
  from Suc.hyps(2) have lt: "k < ?N" by simp
  then have list: "[k..?N - 1] = k # [k + 1..?N - 1]" by (simp add: upto_rec1 [of k])
  from below_ceilDiv [OF b lt] have start: "min (k * psize) objectSize = k * psize" by simp
  from Suc.hyps(2) have "n = nat (?N - (k + 1))" by simp
  from Suc.hyps(1) [OF this] Suc.prems lt
  have rest: "descriptorsFrom (k + 1 + 1) (min ((k + 1) * psize) objectSize)
      (map (partDescriptor objectSize psize) [k + 1..?N - 1]) objectSize"
    by simp
  from b have "k * psize < (k + 1) * psize" by (simp add: algebra_simps)
  with below_ceilDiv [OF b lt] have "k * psize \<le> min ((k + 1) * psize) objectSize - 1"
    by simp
  with rest show ?case
    by (simp add: list start partDescriptor_def)
qed

lemma length_plannedParts:
  assumes "0 < psize" "0 < objectSize"
  shows "int (length (plannedParts objectSize psize)) = \<lceil>rat_of_int objectSize / rat_of_int psize\<rceil>"
proof -
  from ceilDiv_bounds(2) [OF assms(1), of objectSize] assms
  have "0 < ceilDiv objectSize psize * psize" by simp
  with assms(1) have "0 < ceilDiv objectSize psize"
    by (simp add: zero_less_mult_iff)
  then show ?thesis
    by (simp add: plannedParts_def ceilDiv_ceiling [OF assms(1)])
qed

lemma last_plannedParts:
  assumes "0 < psize" "0 < objectSize"
  shows "plannedParts objectSize psize \<noteq> []"
    and "snd (snd (last (plannedParts objectSize psize))) = objectSize - 1"
proof -
  let ?N = "ceilDiv objectSize psize"
  from ceilDiv_bounds(2) [OF assms(1), of objectSize] assms
  have "0 < ?N * psize" by simp
  with assms(1) have N: "0 < ?N"
    by (simp add: zero_less_mult_iff)
  then have list: "[0..?N - 1] = [0..?N - 1 - 1] @ [?N - 1]"
    using upto_rec2 [of 0 "?N - 1"] by simp
  show "plannedParts objectSize psize \<noteq> []"
    by (subst plannedParts_def, subst list) simp
  from ceilDiv_bounds(2) [OF assms(1), of objectSize]
  have "min (?N * psize) objectSize = objectSize" by simp
  then show "snd (snd (last (plannedParts objectSize psize))) = objectSize - 1"
    by (subst plannedParts_def, subst list) (simp add: partDescriptor_def)
qed

lemma copyParts_inputs:
  assumes b: "0 < partSize c" and a: "0 < objectSize"
    and fits: "ceilDiv objectSize (partSize c) * partSize c < 2 ^ 63"
    and k: "0 \<le> k" "k \<le> ceilDiv objectSize (partSize c)"
    and state: "bytePosition = k * partSize c" "partNum = wrap64 (k + 1)"
  shows "\<exists>m. k \<le> m \<and> m \<le> ceilDiv objectSize (partSize c)
           \<and> uploadPartInputs (drop (length tr)
                (snd (copyParts c src dest uploadId objectSize bytePosition partNum
                        completedParts tr)))
               = map (\<lambda>i. plannedInput src dest uploadId
                              (partDescriptor objectSize (partSize c) i)) [k..m - 1]
           \<and> (\<not> isl (fst (copyParts c src dest uploadId objectSize bytePosition partNum
                             completedParts tr))
                \<longrightarrow> m = ceilDiv objectSize (partSize c))"
  using assms
proof (induction c src dest uploadId objectSize bytePosition partNum completedParts tr
    arbitrary: k rule: copyParts.induct)
  case (1 c src dest uploadId objectSize bytePosition partNum completedParts tr)
  let ?N = "ceilDiv objectSize (partSize c)"
  note b = "1.prems"(1) and a = "1.prems"(2) and fits = "1.prems"(3)
    and k = "1.prems"(4,5) and state = "1.prems"(6,7)
  show ?case
  proof (cases "k < ?N")
    case False
    with k have kN: "k = ?N" by simp
    with ceilDiv_bounds(2) [OF b, of objectSize] state have "\<not> bytePosition < objectSize"
      by simp
    then show ?thesis
      by (intro exI [of _ k]) (simp add: copyParts.simps kN)
  next
    case True
    note facts = lastByte_planned [OF b a fits \<open>0 \<le> k\<close> True]
    from facts(4) state have cond: "bytePosition < objectSize" by simp
    obtain r tr1 where body: "copyPart c src dest uploadId partNum bytePosition
        (lastByte (partSize c) objectSize bytePosition) completedParts tr = (r, tr1)"
      by (cases "copyPart c src dest uploadId partNum bytePosition
        (lastByte (partSize c) objectSize bytePosition) completedParts tr")
    from copyPart_trace [of c src dest uploadId partNum bytePosition
        "lastByte (partSize c) objectSize bytePosition" completedParts tr] body
    obtain resp where tr1: "tr1 = tr @ [EvUploadPartCopy (uploadPartCopyInput partNum src dest
        bytePosition (lastByte (partSize c) objectSize bytePosition) uploadId) resp]"
      by auto
    have inp: "uploadPartCopyInput partNum src dest bytePosition
        (lastByte (partSize c) objectSize bytePosition) uploadId
        = plannedInput src dest uploadId (partDescriptor objectSize (partSize c) k)"
      using state facts by (simp add: plannedInput_def partDescriptor_def)
    show ?thesis
    proof (cases r)
      case (Inl ex)
      with cond body have "copyParts c src dest uploadId objectSize bytePosition partNum
          completedParts tr = (Inl ex, tr1)"
        by (simp add: copyParts.simps)
      with True \<open>0 \<le> k\<close> show ?thesis
        by (intro exI [of _ "k + 1"]) (simp add: tr1 inp)
    next
      case (Inr parts1)
      let ?next = "copyParts c src dest uploadId objectSize (wrap64 (bytePosition + partSize c))
          (wrap64 (partNum + 1)) parts1 tr1"
      from cond body Inr have step: "copyParts c src dest uploadId objectSize bytePosition partNum
          completedParts tr = ?next"
        by (simp add: copyParts.simps)
      have pos: "wrap64 (bytePosition + partSize c) = (k + 1) * partSize c"
        using state facts(2) by simp
      have num: "wrap64 (partNum + 1) = wrap64 (k + 1 + 1)"
        using state wrap64_wrap64_add [of "k + 1" 1] by simp
      from "1.IH" [OF cond body [symmetric] Inr b a fits _ _ pos num] True \<open>0 \<le> k\<close>
      obtain m where m: "k + 1 \<le> m" "m \<le> ?N"
        and inputs: "uploadPartInputs (drop (length tr1) (snd ?next))
            = map (\<lambda>i. plannedInput src dest uploadId (partDescriptor objectSize (partSize c) i))
                [k + 1..m - 1]"
        and fin: "\<not> isl (fst ?next) \<longrightarrow> m = ?N"
        by auto
      obtain evs where evs: "snd ?next = tr1 @ evs"
        using copyParts_trace [of c src dest uploadId objectSize
            "wrap64 (bytePosition + partSize c)" "wrap64 (partNum + 1)" parts1 tr1] by blast
      from m have list: "[k..m - 1] = k # [k + 1..m - 1]" by (simp add: upto_rec1 [of k])
      from inputs evs have "uploadPartInputs (drop (length tr) (snd ?next))
          = map (\<lambda>i. plannedInput src dest uploadId (partDescriptor objectSize (partSize c) i))
              [k..m - 1]"
        by (simp add: tr1 inp list)
      with m fin show ?thesis
        by (intro exI [of _ m]) (simp add: step)
    qed
  qed
qed

section \<open>Runs of the multi-part copy\<close>

lemma completeInputs_append [simp]:
  "completeInputs (xs @ ys) = completeInputs xs @ completeInputs ys"
  by (induction xs rule: completeInputs.induct) simp_all

lemma completeInputs_uploads:
  "list_all isUploadPartCopy evs \<Longrightarrow> completeInputs evs = []"
  by (induction evs rule: completeInputs.induct) simp_all

lemma copyToMultiPart_loop:
  assumes "headObject c src tr = (Inr head, tr1)"
    and "createMultiPartUpload c dest head tr1 = (Inr init, tr2)"
    and "ContentLength head = Some objectSize"
  shows "length tr2 = length tr + 2"
    and "copyToMultiPart c src dest tr =
      (if partsSize objectSize (partSize c) < 0 \<or> maxSliceLen < partsSize objectSize (partSize c)
       then (Panic MakeSliceLenOutOfRange, tr2)
       else
         (case copyParts c src dest (UploadId init) objectSize 0 1
                 (replicate (nat (partsSize objectSize (partSize c))) None) tr2 of
            (Inl ex, tr3) \<Rightarrow> (ex, tr3)
          | (Inr completedParts, tr3) \<Rightarrow>
              (Return (case CompleteMultipartUpload (s3client c) tr3
                         \<lparr>complete_Bucket = bucket dest, complete_Key = key dest,
                          complete_Parts = completedParts,
                          complete_UploadId = UploadId init\<rparr> of
                         Inl err \<Rightarrow> Some err | Inr u \<Rightarrow> None),
               tr3 @ [EvCompleteMultipartUpload
                        \<lparr>complete_Bucket = bucket dest, complete_Key = key dest,
                         complete_Parts = completedParts,
                         complete_UploadId = UploadId init\<rparr>
                        (CompleteMultipartUpload (s3client c) tr3
                           \<lparr>complete_Bucket = bucket dest, complete_Key = key dest,
                            complete_Parts = completedParts,
                            complete_UploadId = UploadId init\<rparr>)])))"
  using assms
  by (auto simp: copyToMultiPart_def headObject_def createMultiPartUpload_def Let_def
      split: option.splits prod.splits sum.splits)

text \<open>
  The events a multi-part copy adds after the upload was created: part copies only, then
  (when the loop ran to its end) the completion.
\<close>

lemma copyToMultiPart_after_create:
  assumes head: "headObject c src tr = (Inr head, tr1)"
    and create: "createMultiPartUpload c dest head tr1 = (Inr init, tr2)"
    and size: "ContentLength head = Some objectSize"
  obtains (stopped) evs where
      "snd (copyToMultiPart c src dest tr) = tr2 @ evs"
      "list_all isUploadPartCopy evs"
      "\<And>n. partsSize objectSize (partSize c) = n \<Longrightarrow> 0 \<le> n \<Longrightarrow> n \<le> maxSliceLen \<Longrightarrow>
         snd (copyParts c src dest (UploadId init) objectSize 0 1
                (replicate (nat n) None) tr2) = tr2 @ evs"
      "partsSize objectSize (partSize c) < 0 \<or> maxSliceLen < partsSize objectSize (partSize c)
         \<Longrightarrow> evs = []"
  | (completed) n evs parts r where
      "partsSize objectSize (partSize c) = n" "0 \<le> n"
      "copyParts c src dest (UploadId init) objectSize 0 1 (replicate (nat n) None) tr2
         = (Inr parts, tr2 @ evs)"
      "list_all isUploadPartCopy evs"
      "snd (copyToMultiPart c src dest tr) =
         tr2 @ evs @ [EvCompleteMultipartUpload
                        \<lparr>complete_Bucket = bucket dest, complete_Key = key dest,
                         complete_Parts = parts, complete_UploadId = UploadId init\<rparr> r]"
      "n \<le> maxSliceLen"
proof -
  define n where "n = partsSize objectSize (partSize c)"
  note run = copyToMultiPart_loop(2) [OF assms, folded n_def]
  show ?thesis
  proof (cases "n < 0 \<or> maxSliceLen < n")
    case True
    with run show ?thesis
      unfolding n_def by (intro stopped [of "[]"]) auto
  next
    case False
    let ?loop = "copyParts c src dest (UploadId init) objectSize 0 1 (replicate (nat n) None) tr2"
    obtain evs where evs: "snd ?loop = tr2 @ evs" "list_all isUploadPartCopy evs"
      using copyParts_trace [of c src dest "UploadId init" objectSize 0 1
          "replicate (nat n) None" tr2] by blast
    obtain lr tr3 where loop: "?loop = (lr, tr3)" by (cases ?loop)
    with evs have tr3: "tr3 = tr2 @ evs" by simp
    show ?thesis
    proof (cases lr)
      case (Inl ex)
      with False loop tr3 evs run show ?thesis
        unfolding n_def by (intro stopped [of evs]) auto
    next
      case (Inr parts)
      with False loop tr3 evs run show ?thesis
        unfolding n_def by (intro completed [of n parts evs]) (auto simp: n_def)
    qed
  qed
qed

section \<open>The parts the loop plans\<close>

text \<open>
  Claim C2, for sizes that stay within \<^verbatim>\<open>int64\<close>. Let the object size and the part
  size be positive and let the part count, the ceiling of \<open>objectSize / partSize\<close>,
  times the part size be below \<open>2^63\<close> (so that \<^verbatim>\<open>bytePosition + partSize\<close> never
  wraps around). Then the part copies a multi-part copy asks for are, in order, the
  first ones of the planned descriptors, and all of them when the run reaches the
  completion call. The planned descriptors are numbered from 1, are contiguous without
  gap or overlap, start at byte 0, cover \<open>[0, objectSize)\<close>, are as many as the ceiling
  of \<open>objectSize / partSize\<close>, and the last one ends at byte \<open>objectSize - 1\<close>.
\<close>

theorem copyToMultiPart_part_ranges:
  assumes head: "headObject c src tr = (Inr head, tr1)"
    and create: "createMultiPartUpload c dest head tr1 = (Inr init, tr2)"
    and size: "ContentLength head = Some objectSize"
    and pos: "0 < objectSize" "0 < partSize c"
    and fits: "ceilDiv objectSize (partSize c) * partSize c < 2 ^ 63"
  shows "prefix (uploadPartInputs (drop (length tr2) (snd (copyToMultiPart c src dest tr))))
           (map (plannedInput src dest (UploadId init)) (plannedParts objectSize (partSize c)))
       \<and> (completeInputs (drop (length tr2) (snd (copyToMultiPart c src dest tr))) \<noteq> [] \<longrightarrow>
            uploadPartInputs (drop (length tr2) (snd (copyToMultiPart c src dest tr)))
              = map (plannedInput src dest (UploadId init))
                  (plannedParts objectSize (partSize c)))
       \<and> descriptorsFrom 1 0 (plannedParts objectSize (partSize c)) objectSize
       \<and> int (length (plannedParts objectSize (partSize c)))
           = \<lceil>rat_of_int objectSize / rat_of_int (partSize c)\<rceil>
       \<and> snd (snd (last (plannedParts objectSize (partSize c)))) = objectSize - 1"
proof -
  let ?N = "ceilDiv objectSize (partSize c)"
  let ?mk = "\<lambda>i. plannedInput src dest (UploadId init)
                  (partDescriptor objectSize (partSize c) i)"
  let ?planned = "map (plannedInput src dest (UploadId init))
                    (plannedParts objectSize (partSize c))"
  have planned: "?planned = map ?mk [0..?N - 1]"
    by (simp add: plannedParts_def comp_def)
  from ceilDiv_bounds(2) [OF pos(2), of objectSize] pos
  have "0 < ?N * partSize c" by simp
  with pos(2) have N: "0 \<le> ?N" by (simp add: zero_less_mult_iff)
  have loop: "\<exists>m. 0 \<le> m \<and> m \<le> ?N
      \<and> uploadPartInputs (drop (length tr2)
            (snd (copyParts c src dest (UploadId init) objectSize 0 1 parts tr2)))
          = map ?mk [0..m - 1]
      \<and> (\<not> isl (fst (copyParts c src dest (UploadId init) objectSize 0 1 parts tr2))
           \<longrightarrow> m = ?N)" for parts
    using copyParts_inputs [OF pos(2) pos(1) fits _ N, of 0 1 tr2 src dest "UploadId init" parts]
    by (simp add: wrap64_def)
  have pre: "prefix (map ?mk [0..m - 1]) ?planned" if "0 \<le> m" "m \<le> ?N" for m
  proof -
    from that have "[0..?N - 1] = [0..m - 1] @ [m..?N - 1]"
      using upto_split1 [of 0 m "?N - 1"]
      by (cases "m = ?N") simp_all
    then show ?thesis by (simp add: planned)
  qed
  have requests: "prefix (uploadPartInputs (drop (length tr2)
        (snd (copyToMultiPart c src dest tr)))) ?planned
      \<and> (completeInputs (drop (length tr2) (snd (copyToMultiPart c src dest tr))) \<noteq> [] \<longrightarrow>
            uploadPartInputs (drop (length tr2) (snd (copyToMultiPart c src dest tr)))
              = ?planned)"
  proof (rule copyToMultiPart_after_create [OF head create size], goal_cases)
    case stopped: (1 evs)
    have "prefix (uploadPartInputs evs) ?planned"
    proof (cases "partsSize objectSize (partSize c) < 0
        \<or> maxSliceLen < partsSize objectSize (partSize c)")
      case True
      from stopped(4) [OF this] show ?thesis by simp
    next
      case False
      with stopped(3) [OF refl] loop [of "replicate (nat (partsSize objectSize (partSize c))) None"]
        pre show ?thesis
        by auto
    qed
    with stopped(1,2) show ?thesis
      by (simp add: completeInputs_uploads)
  next
    case completed: (2 n evs parts r)
    from loop [of "replicate (nat n) None"] completed(3)
    have "uploadPartInputs evs = map ?mk [0..?N - 1]" by auto
    with completed(5) show ?thesis
      by (simp add: planned)
  qed
  from descriptorsFrom_planned [OF pos(2) _ N]
  have "descriptorsFrom 1 0 (plannedParts objectSize (partSize c)) objectSize"
    using pos(1) by (simp add: plannedParts_def)
  with requests length_plannedParts [OF pos(2) pos(1)] last_plannedParts(2) [OF pos(2) pos(1)]
  show ?thesis by blast
qed

theorem copyToMultiPart_part_ranges_witness:
  "uploadPartInputs (drop 2 (snd (copyToMultiPart
       (NewS3Copier (constS3 (Inr (headOf 12582912)) (Inr ()) (Inr \<lparr>UploadId = Some ''u1''\<rparr>)
          (Inr (partOf [CHR 0x22, CHR ''a'', CHR 0x22])) (Inr ()) :: string S3))
       \<lparr>bucket = ''from'', key = ''k''\<rparr> \<lparr>bucket = ''to'', key = ''k''\<rparr> [])))
     = map (plannedInput \<lparr>bucket = ''from'', key = ''k''\<rparr> \<lparr>bucket = ''to'', key = ''k''\<rparr>
              (Some ''u1''))
         [(1, 0, 10485759), (2, 10485760, 12582911)]
   \<and> plannedParts 12582912 10485760 = [(1, 0, 10485759), (2, 10485760, 12582911)]
   \<and> descriptorsFrom 1 0 (plannedParts 12582912 10485760) 12582912
   \<and> int (length (plannedParts 12582912 10485760)) = \<lceil>rat_of_int 12582912 / rat_of_int 10485760\<rceil>"
proof -
  let ?c = "NewS3Copier (constS3 (Inr (headOf 12582912)) (Inr ())
      (Inr \<lparr>UploadId = Some ''u1''\<rparr>) (Inr (partOf [CHR 0x22, CHR ''a'', CHR 0x22])) (Inr ())
        :: string S3)"
  let ?src = "\<lparr>bucket = ''from'', key = ''k''\<rparr>"
  let ?dest = "\<lparr>bucket = ''to'', key = ''k''\<rparr>"
  let ?tr1 = "[EvHeadObject \<lparr>head_Bucket = ''from'', head_Key = ''k''\<rparr>
                 (Inr (headOf 12582912) :: string + HeadObjectOutput)]"
  let ?tr2 = "?tr1 @ [EvCreateMultipartUpload
                 \<lparr>create_Bucket = ''to'', create_Key = ''k'',
                  create_ContentType = Some ''video/mp4'', create_Metadata = []\<rparr>
                 (Inr \<lparr>UploadId = Some ''u1''\<rparr>)]"
  have psize: "partSize ?c = 10485760"
    by (simp add: NewS3Copier_def FIVE_MB_def)
  have head: "headObject ?c ?src [] = (Inr (headOf 12582912), ?tr1)"
    by (simp add: headObject_def NewS3Copier_def constS3_def Let_def)
  have create: "createMultiPartUpload ?c ?dest (headOf 12582912) ?tr1
      = (Inr \<lparr>UploadId = Some ''u1''\<rparr>, ?tr2)"
    by (simp add: createMultiPartUpload_def NewS3Copier_def constS3_def Let_def headOf_def)
  have size: "ContentLength (headOf 12582912) = Some 12582912"
    by (simp add: headOf_def)
  have fits: "ceilDiv 12582912 (partSize ?c) * partSize ?c < 2 ^ 63"
    by (simp add: psize ceilDiv_def)
  have completed: "completeInputs (drop (length ?tr2) (snd (copyToMultiPart ?c ?src ?dest [])))
      \<noteq> []"
    by code_simp
  have planned: "plannedParts 12582912 10485760 = [(1, 0, 10485759), (2, 10485760, 12582911)]"
    by code_simp
  note inst = copyToMultiPart_part_ranges [OF head create size _ _ fits, unfolded psize]
  have requests: "uploadPartInputs (drop 2 (snd (copyToMultiPart ?c ?src ?dest [])))
      = map (plannedInput ?src ?dest (Some ''u1'')) (plannedParts 12582912 10485760)"
    using inst [THEN conjunct2, THEN conjunct1] completed by (simp add: numeral_2_eq_2)
  have covers: "descriptorsFrom 1 0 (plannedParts 12582912 10485760) 12582912"
    using inst [THEN conjunct2, THEN conjunct2, THEN conjunct1] by simp
  have count: "int (length (plannedParts 12582912 10485760))
      = \<lceil>rat_of_int 12582912 / rat_of_int 10485760\<rceil>"
    using inst [THEN conjunct2, THEN conjunct2, THEN conjunct2, THEN conjunct1] by simp
  from requests covers count planned show ?thesis
    by (simp only: simp_thms)
qed

text \<open>
  Claim C2 as stated, for every positive object size and part size, fails where
  \<^verbatim>\<open>int64\<close> arithmetic wraps around: for an object of \<open>2^63 - 1\<close> bytes and a part
  size of \<open>2^62 + 1\<close> the loop asks for three parts, the second and third with
  negative byte positions, although the ceiling of \<open>objectSize / partSize\<close> is 2.
\<close>

theorem copyToMultiPart_part_ranges_counterexample:
  "map part_CopySourceRange (uploadPartInputs (snd (copyToMultiPart
       \<lparr>partSize = 2 ^ 62 + 1,
        s3client = constS3 (Inr (headOf (2 ^ 63 - 1))) (Inr ()) (Inr \<lparr>UploadId = Some ''u1''\<rparr>)
          (Inr (partOf [CHR 0x22, CHR ''a'', CHR 0x22])) (Inr ()) :: string S3\<rparr>
       \<lparr>bucket = ''from'', key = ''k''\<rparr> \<lparr>bucket = ''to'', key = ''k''\<rparr> [])))
     = [''bytes=0-4611686018427387904'',
        ''bytes=4611686018427387905--9223372036854775807'',
        ''bytes=-9223372036854775806--4611686018427387902'']
   \<and> \<lceil>rat_of_int (2 ^ 63 - 1) / rat_of_int (2 ^ 62 + 1)\<rceil> = 2
   \<and> \<not> prefix (uploadPartInputs (snd (copyToMultiPart
       \<lparr>partSize = 2 ^ 62 + 1,
        s3client = constS3 (Inr (headOf (2 ^ 63 - 1))) (Inr ()) (Inr \<lparr>UploadId = Some ''u1''\<rparr>)
          (Inr (partOf [CHR 0x22, CHR ''a'', CHR 0x22])) (Inr ()) :: string S3\<rparr>
       \<lparr>bucket = ''from'', key = ''k''\<rparr> \<lparr>bucket = ''to'', key = ''k''\<rparr> [])))
       (map (plannedInput \<lparr>bucket = ''from'', key = ''k''\<rparr> \<lparr>bucket = ''to'', key = ''k''\<rparr>
               (Some ''u1''))
          (plannedParts (2 ^ 63 - 1) (2 ^ 62 + 1)))"
  by code_simp

section \<open>The entity tags of the manifest\<close>

text \<open>A token between two double quote characters.\<close>

definition quoted :: "string \<Rightarrow> string" where
  "quoted t = CHR 0x22 # t @ [CHR 0x22]"

text \<open>
  Claim C5. When a part copy returns an entity tag, line 177 stores the tag without its
  first and last byte in \<^verbatim>\<open>completedParts[partNum-1]\<close>, whatever these two bytes are
  (a tag of fewer than two bytes panics in the slice, an index outside the manifest
  panics in the store). For a token between double quotes the stored tag is the token:
  the quoted \<open>abc123\<close> is stored as \<open>abc123\<close>. The code does not test for quotes, so
  no tag is stored as it was returned: the stored tag of a non-empty tag always differs
  from it.
\<close>

theorem copyPart_stored_etag:
  assumes "UploadPartCopy (s3client c) tr
             (uploadPartCopyInput partNum src dest bytePosition lastB uploadId) = Inr out"
    and "CopyPartResult out = Some cpr"
    and "result_ETag cpr = Some etag"
  shows "copyPart c src dest uploadId partNum bytePosition lastB completedParts tr =
           (if length etag < 2 then Inl (Panic SliceBoundsOutOfRange)
            else if 0 \<le> wrap64 (partNum - 1)
                    \<and> wrap64 (partNum - 1) < int (length completedParts)
            then Inr (completedParts
                   [nat (wrap64 (partNum - 1)) :=
                      Some \<lparr>ETag = butlast (tl etag), PartNumber = partNum\<rparr>])
            else Inl (Panic IndexOutOfRange),
            tr @ [EvUploadPartCopy
                    (uploadPartCopyInput partNum src dest bytePosition lastB uploadId)
                    (Inr out)])
       \<and> (\<forall>t. etag = quoted t \<longrightarrow> butlast (tl etag) = t)
       \<and> (etag \<noteq> [] \<longrightarrow> butlast (tl etag) \<noteq> etag)"
proof -
  have shorter: "length (butlast (tl etag)) < length etag" if "etag \<noteq> []"
    using that by (cases etag) simp_all
  have differs: "etag \<noteq> [] \<longrightarrow> butlast (tl etag) \<noteq> etag"
  proof
    assume "etag \<noteq> []"
    from shorter [OF this] show "butlast (tl etag) \<noteq> etag"
      by (rule contrapos_pn) simp
  qed
  have strips: "\<forall>t. etag = quoted t \<longrightarrow> butlast (tl etag) = t"
    by (simp add: quoted_def)
  from assms have "copyPart c src dest uploadId partNum bytePosition lastB completedParts tr =
           (if length etag < 2 then Inl (Panic SliceBoundsOutOfRange)
            else if 0 \<le> wrap64 (partNum - 1)
                    \<and> wrap64 (partNum - 1) < int (length completedParts)
            then Inr (completedParts
                   [nat (wrap64 (partNum - 1)) :=
                      Some \<lparr>ETag = butlast (tl etag), PartNumber = partNum\<rparr>])
            else Inl (Panic IndexOutOfRange),
            tr @ [EvUploadPartCopy
                    (uploadPartCopyInput partNum src dest bytePosition lastB uploadId)
                    (Inr out)])"
    by (simp add: copyPart_def uploadPartCopy_def Let_def goSlice_etag)
  with strips differs show ?thesis by (simp only: simp_thms)
qed

theorem copyPart_stored_etag_witness:
  "fst (copyPart
     (NewS3Copier (constS3 (Inr (headOf 6291456)) (Inr ()) (Inr \<lparr>UploadId = Some ''u1''\<rparr>)
        (Inr (partOf (quoted ''abc123''))) (Inr ()) :: string S3))
     \<lparr>bucket = ''from'', key = ''k''\<rparr> \<lparr>bucket = ''to'', key = ''k''\<rparr>
     (Some ''u1'') 1 0 6291455 [None] [])
   = Inr [Some \<lparr>ETag = ''abc123'', PartNumber = 1\<rparr>]
   \<and> fst (copyPart
     (NewS3Copier (constS3 (Inr (headOf 6291456)) (Inr ()) (Inr \<lparr>UploadId = Some ''u1''\<rparr>)
        (Inr (partOf ''abc123'')) (Inr ()) :: string S3))
     \<lparr>bucket = ''from'', key = ''k''\<rparr> \<lparr>bucket = ''to'', key = ''k''\<rparr>
     (Some ''u1'') 1 0 6291455 [None] [])
   = Inr [Some \<lparr>ETag = ''bc12'', PartNumber = 1\<rparr>]"
proof -
  let ?q = "NewS3Copier (constS3 (Inr (headOf 6291456)) (Inr ())
      (Inr \<lparr>UploadId = Some ''u1''\<rparr>) (Inr (partOf (quoted ''abc123''))) (Inr ()) :: string S3)"
  let ?u = "NewS3Copier (constS3 (Inr (headOf 6291456)) (Inr ())
      (Inr \<lparr>UploadId = Some ''u1''\<rparr>) (Inr (partOf ''abc123'')) (Inr ()) :: string S3)"
  let ?src = "\<lparr>bucket = ''from'', key = ''k''\<rparr>"
  let ?dest = "\<lparr>bucket = ''to'', key = ''k''\<rparr>"
  have answer_q: "UploadPartCopy (s3client ?q) []
      (uploadPartCopyInput 1 ?src ?dest 0 6291455 (Some ''u1'')) = Inr (partOf (quoted ''abc123''))"
    by (simp add: NewS3Copier_def constS3_def)
  have answer_u: "UploadPartCopy (s3client ?u) []
      (uploadPartCopyInput 1 ?src ?dest 0 6291455 (Some ''u1'')) = Inr (partOf ''abc123'')"
    by (simp add: NewS3Copier_def constS3_def)
  have tag: "CopyPartResult (partOf e) = Some \<lparr>result_ETag = Some e\<rparr>"
    "result_ETag \<lparr>result_ETag = Some e\<rparr> = Some e" for e
    by (simp_all add: partOf_def)
  have w0: "wrap64 0 = 0" by (simp add: wrap64_def)
  from copyPart_stored_etag [OF answer_q tag, of "[None]", THEN conjunct1]
    copyPart_stored_etag [OF answer_q tag, of "[None]", THEN conjunct2, THEN conjunct1,
      rule_format, of "''abc123''"]
  have a: "fst (copyPart ?q ?src ?dest (Some ''u1'') 1 0 6291455 [None] [])
      = Inr [Some \<lparr>ETag = ''abc123'', PartNumber = 1\<rparr>]"
    by (simp add: w0 quoted_def)
  from copyPart_stored_etag [OF answer_u tag, of "[None]", THEN conjunct1]
  have b: "fst (copyPart ?u ?src ?dest (Some ''u1'') 1 0 6291455 [None] [])
      = Inr [Some \<lparr>ETag = ''bc12'', PartNumber = 1\<rparr>]"
    by (simp add: w0)
  from a b show ?thesis by (simp only: simp_thms)
qed

text \<open>
  The same in a run: when a multi-part copy reaches the completion call, the manifest
  holds, for every entity tag a part copy returned, the tag without its first and last
  byte under the part number of that request.
\<close>

lemma partStored_etag:
  assumes "partStored (EvUploadPartCopy pin (Inr out)) \<noteq> None"
    and "CopyPartResult out = Some cpr" "result_ETag cpr = Some etag"
  shows "2 \<le> length etag"
    and "partStored (EvUploadPartCopy pin (Inr out))
           = Some \<lparr>ETag = butlast (tl etag), PartNumber = part_PartNumber pin\<rparr>"
  using assms by (simp_all split: if_splits)

lemma copyToMultiPart_manifest_etags:
  fixes c :: "'e S3Copier"
  assumes reached: "EvCompleteMultipartUpload inp r
                      \<in> set (drop (length tr) (snd (copyToMultiPart c src dest tr)))"
    and part: "EvUploadPartCopy pin (Inr out)
                 \<in> set (drop (length tr) (snd (copyToMultiPart c src dest tr)))"
    and etag: "CopyPartResult out = Some cpr" "result_ETag cpr = Some etag"
  shows "2 \<le> length etag
       \<and> Some \<lparr>ETag = butlast (tl etag), PartNumber = part_PartNumber pin\<rparr>
           \<in> set (complete_Parts inp)
       \<and> (\<forall>t. etag = quoted t \<longrightarrow>
             Some \<lparr>ETag = t, PartNumber = part_PartNumber pin\<rparr> \<in> set (complete_Parts inp))"
proof -
  let ?run = "snd (copyToMultiPart c src dest tr)"
  let ?ev = "EvUploadPartCopy pin (Inr out) :: 'e event"
  obtain h tr1 where head: "headObject c src tr = (h, tr1)" by (cases "headObject c src tr")
  then have tr1: "tr1 = tr @ [EvHeadObject \<lparr>head_Bucket = bucket src, head_Key = key src\<rparr> h]"
    by (auto simp: headObject_def Let_def)
  have "\<exists>head. h = Inr head"
  proof (cases h)
    case (Inl err)
    with head tr1 reached show ?thesis by (simp add: copyToMultiPart_def)
  qed simp
  then obtain head where h: "h = Inr head" ..
  obtain cr tr2 where create: "createMultiPartUpload c dest head tr1 = (cr, tr2)"
    by (cases "createMultiPartUpload c dest head tr1")
  then obtain cin where tr2: "tr2 = tr1 @ [EvCreateMultipartUpload cin cr]"
    by (auto simp: createMultiPartUpload_def Let_def)
  have "\<exists>init. cr = Inr init"
  proof (cases cr)
    case (Inl err)
    with head h create tr1 tr2 reached show ?thesis by (simp add: copyToMultiPart_def)
  qed simp
  then obtain init where cr: "cr = Inr init" ..
  have "\<exists>objectSize. ContentLength head = Some objectSize"
  proof (cases "ContentLength head")
    case None
    with head h create cr tr1 tr2 reached show ?thesis by (simp add: copyToMultiPart_def)
  qed simp
  then obtain objectSize where size: "ContentLength head = Some objectSize" ..
  note head' = head [unfolded h] and create' = create [unfolded cr]
  show ?thesis
  proof (rule copyToMultiPart_after_create [OF head' create' size], goal_cases)
    case (1 evs)
    then have "drop (length tr) ?run = [EvHeadObject \<lparr>head_Bucket = bucket src,
        head_Key = key src\<rparr> h, EvCreateMultipartUpload cin cr] @ evs"
      by (simp add: tr1 tr2)
    with reached 1(2) show ?case
      by (auto simp: list_all_iff)
  next
    case (2 n evs parts r')
    let ?fin = "EvCompleteMultipartUpload
        \<lparr>complete_Bucket = bucket dest, complete_Key = key dest,
         complete_Parts = parts, complete_UploadId = UploadId init\<rparr> r'"
    from 2(5) have new: "drop (length tr) ?run = [EvHeadObject \<lparr>head_Bucket = bucket src,
        head_Key = key src\<rparr> h, EvCreateMultipartUpload cin cr] @ evs @ [?fin]"
      by (simp add: tr1 tr2)
    with reached 2(4) have inp: "complete_Parts inp = parts"
      by (auto simp: list_all_iff)
    from new part 2(4) have ev: "?ev \<in> set evs"
      by (auto simp: list_all_iff)
    from copyParts_parts [OF 2(3)]
    obtain evs' where evs': "tr2 @ evs = tr2 @ evs'"
      and stored: "list_all (\<lambda>ev. partStored ev \<noteq> None) evs'"
      and parts: "evs' \<noteq> [] \<longrightarrow> parts = take (nat (wrap64 (1 - 1))) (replicate (nat n) None)
          @ map partStored evs' @ drop (nat (wrap64 (1 - 1)) + length evs') (replicate (nat n) None)"
      by blast
    from evs' have same: "evs' = evs" by simp
    from ev stored same have some: "partStored ?ev \<noteq> None"
      by (auto simp: list_all_iff)
    from ev same have "evs' \<noteq> []" by auto
    with parts obtain xs ys where "parts = xs @ map partStored evs' @ ys" by blast
    moreover from ev have "partStored ?ev \<in> partStored ` set evs"
      by (rule imageI)
    then have "partStored ?ev \<in> set (map partStored evs')"
      by (simp only: set_map same)
    ultimately have "partStored ?ev \<in> set parts"
      by (simp del: partStored.simps)
    with partStored_etag [OF some etag] inp show ?case
      by (auto simp: quoted_def)
  qed
qed

text \<open>
  Claim C5 also says that a token without surrounding quotes is stored unmodified, and
  the comment of line 177 names the double quotes as what the slice removes. The slice
  does not look at the bytes it drops: when the part copy of a 6 MiB object answers
  with the unquoted token \<open>abc123\<close>, the manifest passed to the completion call holds
  \<open>bc12\<close>.
\<close>

theorem copyToMultiPart_stored_etag_counterexample:
  "map (map (map_option ETag) \<circ> complete_Parts) (completeInputs (snd (copyToMultiPart
       (NewS3Copier (constS3 (Inr (headOf 6291456)) (Inr ()) (Inr \<lparr>UploadId = Some ''u1''\<rparr>)
          (Inr (partOf ''abc123'')) (Inr ()) :: string S3))
       \<lparr>bucket = ''from'', key = ''k''\<rparr> \<lparr>bucket = ''to'', key = ''k''\<rparr> [])))
     = [[Some ''bc12'']]
   \<and> ''bc12'' \<noteq> ''abc123''"
  by code_simp

section \<open>The length of the manifest\<close>

text \<open>
  The length of \<^verbatim>\<open>completedParts\<close> is computed in floating point. Five values:
  a 12 MiB object in 10 MiB parts; a size beyond \<open>2^53\<close> whose conversion rounds up,
  which gives one slot more than there are parts; one whose conversion rounds down,
  which gives one slot less; a part size of 0, where the quotient is infinite; and a
  length beyond what \<^verbatim>\<open>make\<close> allocates.
\<close>

lemma partsSize_examples:
  "partsSize 12582912 10485760 = 2"
  "partsSize (3 * (2 ^ 52 - 3)) (2 ^ 52 - 3) = 4"
  "partsSize (2 ^ 53 + 1) (2 ^ 53) = 1"
  "partsSize 12582912 0 = - (2 ^ 63)"
  "partsSize (2 ^ 46) 1 = 2 ^ 46"
  by code_simp+

text \<open>
  With the last two lengths \<^verbatim>\<open>make\<close> panics: the run ends after the upload was
  created, before any part copy.
\<close>

lemma copyToMultiPart_make_panics:
  "copyToMultiPart
     \<lparr>partSize = 0,
      s3client = constS3 (Inr (headOf 12582912)) (Inr ()) (Inr \<lparr>UploadId = Some ''u1''\<rparr>)
        (Inr (partOf ''x'')) (Inr ()) :: string S3\<rparr>
     \<lparr>bucket = ''from'', key = ''k''\<rparr> \<lparr>bucket = ''to'', key = ''k''\<rparr> []
   = (Panic MakeSliceLenOutOfRange,
      [EvHeadObject \<lparr>head_Bucket = ''from'', head_Key = ''k''\<rparr> (Inr (headOf 12582912)),
       EvCreateMultipartUpload
         \<lparr>create_Bucket = ''to'', create_Key = ''k'', create_ContentType = Some ''video/mp4'',
          create_Metadata = []\<rparr>
         (Inr \<lparr>UploadId = Some ''u1''\<rparr>)])"
  "copyToMultiPart
     \<lparr>partSize = 1,
      s3client = constS3 (Inr (headOf (2 ^ 46))) (Inr ()) (Inr \<lparr>UploadId = Some ''u1''\<rparr>)
        (Inr (partOf ''x'')) (Inr ()) :: string S3\<rparr>
     \<lparr>bucket = ''from'', key = ''k''\<rparr> \<lparr>bucket = ''to'', key = ''k''\<rparr> []
   = (Panic MakeSliceLenOutOfRange,
      [EvHeadObject \<lparr>head_Bucket = ''from'', head_Key = ''k''\<rparr> (Inr (headOf (2 ^ 46))),
       EvCreateMultipartUpload
         \<lparr>create_Bucket = ''to'', create_Key = ''k'', create_ContentType = Some ''video/mp4'',
          create_Metadata = []\<rparr>
         (Inr \<lparr>UploadId = Some ''u1''\<rparr>)])"
  by code_simp+











section \<open>Order and completeness of the manifest\<close>









section \<open>The worker pool dispatcher\<close>

text \<open>
  \<^verbatim>\<open>CopyWithPrefix\<close> (lines 55 to 94) and \<^verbatim>\<open>runWorker\<close> (lines 42 to 53) as a
  transition system. The three channels are queues with the capacities of the source:
  \<^verbatim>\<open>jobs\<close> and \<^verbatim>\<open>done\<close> hold up to 20000 keys, \<^verbatim>\<open>statusChan\<close> holds one error; a
  send is possible while the queue is not full, a receive while it is not empty. The
  listing is the list of the keys that \<^verbatim>\<open>ListObjectsV2Pages\<close> hands to the callback, in
  order; the error that call may return is dropped by the source, so a listing that
  fails is one that hands over fewer keys. The counters \<^verbatim>\<open>count\<close> and \<^verbatim>\<open>check\<close> are
  natural numbers (they only count up from 0, by one for each key).

  A worker waits for a job; once it has taken a key and \<^verbatim>\<open>CopyTo\<close> has returned it
  holds the key and the result until it can send: the key to \<^verbatim>\<open>done\<close>, after which
  it waits again, or the error to \<^verbatim>\<open>statusChan\<close>, after which it has left its loop.
\<close>

datatype 'e worker = Waiting | Copied string "'e option" | Exited

text \<open>
  The caller of \<^verbatim>\<open>CopyWithPrefix\<close> is listing (the keys still to come), or in the
  \<^verbatim>\<open>select\<close> of the control loop, or it has returned.
\<close>

datatype 'e control = Listing "string list" | Selecting | Returned "'e option"

record 'e dispatcher =
  jobs :: "string list"
  doneChan :: "string list"
  statusChan :: "'e list"
  workers :: "'e worker list"
  control :: "'e control"
  count :: nat
  check :: nat
  crashed :: bool

text \<open>
  The steps of a run. \<open>Take w r\<close> is worker \<open>w\<close> receiving the next key from \<^verbatim>\<open>jobs\<close>
  and copying it, \<open>r\<close> being what \<^verbatim>\<open>CopyTo\<close> does for that key: every result is
  possible, since it depends on the storage service. A panic in a worker ends the whole
  process.
\<close>

datatype 'e action =
    Enqueue
  | ListingEnds
  | Take nat "'e exit"
  | SendError nat
  | SendDone nat
  | ReceiveDone
  | ReceiveError

definition init :: "string list \<Rightarrow> 'e dispatcher" where
  "init keys =
     \<lparr>jobs = [], doneChan = [], statusChan = [],
      workers = replicate WORKER_COUNT Waiting,
      control = Listing keys, count = 0, check = 0, crashed = False\<rparr>"

text \<open>
  \<open>act s a\<close> is the state after step \<open>a\<close>, and \<open>None\<close> when \<open>a\<close> is not possible in \<open>s\<close>:
  \<open>Enqueue\<close> is \<^verbatim>\<open>jobs <- k; count++\<close> of the listing callback, \<open>ListingEnds\<close> is
  \<^verbatim>\<open>check := 0\<close> and the entry into the control loop, \<open>ReceiveDone\<close> and
  \<open>ReceiveError\<close> are the two cases of the \<^verbatim>\<open>select\<close>; the test \<^verbatim>\<open>check >= count\<close>
  comes after a key was received from \<^verbatim>\<open>done\<close>.
\<close>

fun act :: "'e dispatcher \<Rightarrow> 'e action \<Rightarrow> 'e dispatcher option" where
  "act s Enqueue =
     (case control s of
        Listing (k # ks) \<Rightarrow>
          if length (jobs s) < 20000
          then Some (s\<lparr>jobs := jobs s @ [k], count := count s + 1, control := Listing ks\<rparr>)
          else None
      | _ \<Rightarrow> None)"
| "act s ListingEnds =
     (case control s of
        Listing [] \<Rightarrow> Some (s\<lparr>check := 0, control := Selecting\<rparr>)
      | _ \<Rightarrow> None)"
| "act s (Take w r) =
     (if w < length (workers s) \<and> workers s ! w = Waiting then
        (case jobs s of
           [] \<Rightarrow> None
         | k # ks \<Rightarrow>
             (case r of
                Return err \<Rightarrow> Some (s\<lparr>jobs := ks, workers := (workers s)[w := Copied k err]\<rparr>)
              | _ \<Rightarrow> Some (s\<lparr>jobs := ks, crashed := True\<rparr>)))
      else None)"
| "act s (SendError w) =
     (if w < length (workers s) then
        (case workers s ! w of
           Copied k (Some err) \<Rightarrow>
             if length (statusChan s) < 1
             then Some (s\<lparr>statusChan := statusChan s @ [err],
                          workers := (workers s)[w := Exited]\<rparr>)
             else None
         | _ \<Rightarrow> None)
      else None)"
| "act s (SendDone w) =
     (if w < length (workers s) then
        (case workers s ! w of
           Copied k None \<Rightarrow>
             if length (doneChan s) < 20000
             then Some (s\<lparr>doneChan := doneChan s @ [k],
                          workers := (workers s)[w := Waiting]\<rparr>)
             else None
         | _ \<Rightarrow> None)
      else None)"
| "act s ReceiveDone =
     (case control s of
        Selecting \<Rightarrow>
          (case doneChan s of
             [] \<Rightarrow> None
           | k # ks \<Rightarrow>
               Some (s\<lparr>doneChan := ks, check := check s + 1,
                       control := (if check s + 1 \<ge> count s then Returned None
                                   else Selecting)\<rparr>))
      | _ \<Rightarrow> None)"
| "act s ReceiveError =
     (case control s of
        Selecting \<Rightarrow>
          (case statusChan s of
             [] \<Rightarrow> None
           | err # errs \<Rightarrow> Some (s\<lparr>statusChan := errs, control := Returned (Some err)\<rparr>))
      | _ \<Rightarrow> None)"

definition step :: "'e dispatcher \<Rightarrow> 'e action \<Rightarrow> 'e dispatcher option" where
  "step s a = (if crashed s then None else act s a)"

text \<open>A run: the steps of a list taken one after the other.\<close>

fun run :: "'e dispatcher \<Rightarrow> 'e action list \<Rightarrow> 'e dispatcher option" where
  "run s [] = Some s"
| "run s (a # as) = (case step s a of None \<Rightarrow> None | Some s' \<Rightarrow> run s' as)"

subsection \<open>Invariants of the dispatcher\<close>

text \<open>
  Every key counted is either received by the control loop, or in one of the two
  queues, or held by a worker, or lost in a crash; every worker that left its loop has
  sent one error, which is in \<^verbatim>\<open>statusChan\<close> or was received.
\<close>

definition busy :: "'e worker list \<Rightarrow> nat" where
  "busy ws = length (filter (\<lambda>w. w \<noteq> Waiting) ws)"

definition exited :: "'e worker list \<Rightarrow> nat" where
  "exited ws = length (filter (\<lambda>w. w = Exited) ws)"

definition received :: "'e control \<Rightarrow> nat" where
  "received c = (case c of Returned (Some err) \<Rightarrow> 1 | _ \<Rightarrow> 0)"

definition lost :: "'e dispatcher \<Rightarrow> nat" where
  "lost s = (if crashed s then 1 else 0)"

definition inv_control :: "string list \<Rightarrow> 'e dispatcher \<Rightarrow> bool" where
  "inv_control keys s =
     (case control s of
        Listing ks \<Rightarrow> count s + length ks = length keys \<and> check s = 0
      | Selecting \<Rightarrow> count s = length keys \<and> (check s < count s \<or> count s = 0)
      | Returned None \<Rightarrow> count s = length keys \<and> check s = count s
      | Returned (Some err) \<Rightarrow> count s = length keys)"

definition inv_count :: "'e dispatcher \<Rightarrow> bool" where
  "inv_count s \<longleftrightarrow>
     count s = check s + length (doneChan s) + length (jobs s) + busy (workers s) + lost s"

definition inv_errors :: "'e dispatcher \<Rightarrow> bool" where
  "inv_errors s \<longleftrightarrow> exited (workers s) = length (statusChan s) + received (control s)"

lemma filter_update_length:
  "i < length ws \<Longrightarrow>
     length (filter P (ws[i := x])) + (if P (ws ! i) then 1 else 0)
       = length (filter P ws) + (if P x then 1 else 0)"
proof (induction ws arbitrary: i)
  case Nil
  then show ?case by simp
next
  case (Cons w ws)
  show ?case
  proof (cases i)
    case 0
    then show ?thesis by simp
  next
    case (Suc j)
    with Cons.prems have "j < length ws" by simp
    from Cons.IH [OF this] Suc show ?thesis by simp
  qed
qed

lemma busy_update:
  "i < length ws \<Longrightarrow>
     busy (ws[i := x]) + (if ws ! i \<noteq> Waiting then 1 else 0)
       = busy ws + (if x \<noteq> Waiting then 1 else 0)"
  unfolding busy_def by (rule filter_update_length)

lemma exited_update:
  "i < length ws \<Longrightarrow>
     exited (ws[i := x]) + (if ws ! i = Exited then 1 else 0)
       = exited ws + (if x = Exited then 1 else 0)"
  unfolding exited_def by (rule filter_update_length)

lemma step_inv_count:
  assumes "step s a = Some s'" "inv_count s" "inv_control keys s"
  shows "inv_count s'"
proof (cases a)
  case (Take w r)
  with assms show ?thesis
    using busy_update [of w "workers s"]
    by (auto simp: step_def inv_count_def lost_def
        split: if_splits list.splits exit.splits)
next
  case (SendError w)
  with assms show ?thesis
    using busy_update [of w "workers s" Exited]
    by (auto simp: step_def inv_count_def lost_def
        split: if_splits worker.splits option.splits)
next
  case (SendDone w)
  with assms show ?thesis
    using busy_update [of w "workers s" Waiting]
    by (auto simp: step_def inv_count_def lost_def
        split: if_splits worker.splits option.splits)
qed (use assms in \<open>auto simp: step_def inv_count_def inv_control_def lost_def
        split: if_splits control.splits list.splits\<close>)

lemma step_inv_errors:
  assumes "step s a = Some s'" "inv_errors s"
  shows "inv_errors s'"
proof (cases a)
  case (Take w r)
  with assms show ?thesis
    using exited_update [of w "workers s"]
    by (auto simp: step_def inv_errors_def
        split: if_splits list.splits exit.splits)
next
  case (SendError w)
  with assms show ?thesis
    using exited_update [of w "workers s" Exited]
    by (auto simp: step_def inv_errors_def
        split: if_splits worker.splits option.splits)
next
  case (SendDone w)
  with assms show ?thesis
    using exited_update [of w "workers s" Waiting]
    by (auto simp: step_def inv_errors_def
        split: if_splits worker.splits option.splits)
qed (use assms in \<open>auto simp: step_def inv_errors_def received_def
        split: if_splits control.splits list.splits\<close>)

lemma step_inv_control:
  assumes "step s a = Some s'" "inv_control keys s" "inv_count s"
  shows "inv_control keys s'"
  using assms
  by (cases a)
    (auto simp: step_def inv_control_def inv_count_def
      split: if_splits control.splits list.splits worker.splits option.splits exit.splits)

lemma run_snoc:
  "run s (as @ [a]) = (case run s as of None \<Rightarrow> None | Some s' \<Rightarrow> step s' a)"
  by (induction as arbitrary: s) (simp_all split: option.splits)

lemma init_inv:
  "inv_control keys (init keys)" "inv_count (init keys)" "inv_errors (init keys)"
  by (simp_all add: init_def inv_control_def inv_count_def inv_errors_def busy_def exited_def
      received_def lost_def)

lemma run_inv:
  assumes "run (init keys) as = Some s"
  shows "inv_control keys s \<and> inv_count s \<and> inv_errors s"
  using assms
proof (induction as arbitrary: s rule: rev_induct)
  case Nil
  then show ?case using init_inv [of keys] by auto
next
  case (snoc a as)
  from snoc.prems obtain s' where s': "run (init keys) as = Some s'" and a: "step s' a = Some s"
    by (auto simp: run_snoc split: option.splits)
  from snoc.IH [OF s'] have "inv_control keys s'" "inv_count s'" "inv_errors s'" by simp_all
  with a show ?case
    by (auto intro: step_inv_control step_inv_count step_inv_errors)
qed

lemma step_check:
  assumes "step s a = Some s'" "inv_control keys s"
  shows "check s' = check s + (if a = ReceiveDone then 1 else 0)"
  using assms
  by (cases a)
    (auto simp: step_def inv_control_def
      split: if_splits control.splits list.splits worker.splits option.splits exit.splits)

lemma step_error_returned:
  assumes "step s a = Some s'"
  shows "(\<exists>err. control s' = Returned (Some err))
           \<longleftrightarrow> a = ReceiveError \<or> (\<exists>err. control s = Returned (Some err))"
  using assms
  by (cases a)
    (auto simp: step_def
      split: if_splits control.splits list.splits worker.splits option.splits exit.splits)

lemma step_returned:
  assumes "step s a = Some s'" "control s = Returned r"
  shows "control s' = Returned r"
  using assms
  by (cases a)
    (auto simp: step_def
      split: if_splits control.splits list.splits worker.splits option.splits exit.splits)

lemma step_returns_error:
  assumes "step s a = Some s'" "control s' = Returned (Some err)"
    "control s \<noteq> Returned (Some err)"
  shows "a = ReceiveError \<and> control s = Selecting \<and> (\<exists>errs. statusChan s = err # errs)"
  using assms
  by (cases a)
    (auto simp: step_def
      split: if_splits control.splits list.splits worker.splits option.splits exit.splits)

lemma run_history:
  assumes "run (init keys) as = Some s"
  shows "check s = count_list as ReceiveDone
       \<and> (ReceiveError \<in> set as \<longleftrightarrow> (\<exists>err. control s = Returned (Some err)))"
  using assms
proof (induction as arbitrary: s rule: rev_induct)
  case Nil
  then show ?case by (auto simp: init_def)
next
  case (snoc a as)
  from snoc.prems obtain s' where s': "run (init keys) as = Some s'" and a: "step s' a = Some s"
    by (auto simp: run_snoc split: option.splits)
  from run_inv [OF s'] have "inv_control keys s'" by simp
  from step_check [OF a this] step_error_returned [OF a] snoc.IH [OF s'] show ?case
    by auto
qed

lemma run_first_error:
  assumes "run (init keys) as = Some s" "control s = Returned (Some err)"
  shows "\<exists>as1 as2 s1 errs.
           as = as1 @ ReceiveError # as2 \<and> ReceiveError \<notin> set as1
           \<and> run (init keys) as1 = Some s1 \<and> control s1 = Selecting
           \<and> statusChan s1 = err # errs"
  using assms
proof (induction as arbitrary: s rule: rev_induct)
  case Nil
  then show ?case by (auto simp: init_def)
next
  case (snoc a as)
  from snoc.prems obtain s' where s': "run (init keys) as = Some s'" and a: "step s' a = Some s"
    by (auto simp: run_snoc split: option.splits)
  show ?case
  proof (cases "control s' = Returned (Some err)")
    case True
    from snoc.IH [OF s' True] obtain as1 as2 s1 errs where
      "as = as1 @ ReceiveError # as2" "ReceiveError \<notin> set as1"
      "run (init keys) as1 = Some s1" "control s1 = Selecting" "statusChan s1 = err # errs"
      by blast
    then show ?thesis
      by (intro exI [of _ as1] exI [of _ "as2 @ [a]"] exI [of _ s1] exI [of _ errs]) simp
  next
    case False
    from step_returns_error [OF a snoc.prems(2) False]
    obtain errs where "a = ReceiveError" "control s' = Selecting" "statusChan s' = err # errs"
      by blast
    moreover from run_history [OF s'] \<open>control s' = Selecting\<close>
    have "ReceiveError \<notin> set as" by simp
    ultimately show ?thesis using s'
      by (intro exI [of _ as] exI [of _ "[]"] exI [of _ s'] exI [of _ errs]) simp
  qed
qed

lemma busy_zero: "busy ws = 0 \<Longrightarrow> list_all (\<lambda>w. w = Waiting) ws"
  by (induction ws) (auto simp: busy_def split: if_splits)

lemma idle_not_exited: "list_all (\<lambda>w. w = Waiting) ws \<Longrightarrow> exited ws = 0"
  by (induction ws) (auto simp: exited_def)

lemma map_option_SomeD:
  "map_option f r = Some v \<Longrightarrow> \<exists>s. r = Some s \<and> f s = v"
  by (cases r) auto

subsection \<open>What the control loop returns\<close>

text \<open>
  Claim C3. Take any run of \<^verbatim>\<open>CopyWithPrefix\<close> on any listing. If it has returned an
  error, there is a first step at which the \<^verbatim>\<open>select\<close> of the control loop received
  from \<^verbatim>\<open>statusChan\<close>, and the error returned is the one that was first in the
  channel at that step; and in every run in which the loop has received from
  \<^verbatim>\<open>statusChan\<close>, the function has returned an error. If it has returned
  \<^verbatim>\<open>nil\<close>, then \<^verbatim>\<open>check\<close> equals \<^verbatim>\<open>count\<close>, both equal the number
  of keys of the listing, as many keys were received from \<^verbatim>\<open>done\<close>, the loop never
  received an error, and no error is left anywhere: \<^verbatim>\<open>statusChan\<close> is empty and every
  worker waits for a job.
\<close>

theorem CopyWithPrefix_returns:
  assumes "run (init keys) as = Some s"
  shows "(\<forall>err. control s = Returned (Some err) \<longrightarrow>
            (\<exists>as1 as2 s1 errs.
               as = as1 @ ReceiveError # as2 \<and> ReceiveError \<notin> set as1
               \<and> run (init keys) as1 = Some s1 \<and> control s1 = Selecting
               \<and> statusChan s1 = err # errs))
       \<and> (ReceiveError \<in> set as \<longrightarrow> (\<exists>err. control s = Returned (Some err)))
       \<and> (control s = Returned None \<longrightarrow>
            check s = count s \<and> count s = length keys
            \<and> count_list as ReceiveDone = length keys
            \<and> ReceiveError \<notin> set as
            \<and> statusChan s = [] \<and> jobs s = [] \<and> doneChan s = []
            \<and> list_all (\<lambda>w. w = Waiting) (workers s) \<and> \<not> crashed s)"
proof -
  from run_inv [OF assms] have inv: "inv_control keys s" "inv_count s" "inv_errors s"
    by simp_all
  note hist = run_history [OF assms]
  have success: "check s = count s \<and> count s = length keys
      \<and> count_list as ReceiveDone = length keys \<and> ReceiveError \<notin> set as
      \<and> statusChan s = [] \<and> jobs s = [] \<and> doneChan s = []
      \<and> list_all (\<lambda>w. w = Waiting) (workers s) \<and> \<not> crashed s"
    if ret: "control s = Returned None"
  proof -
    from inv(1) ret have c: "count s = length keys" "check s = count s"
      by (simp_all add: inv_control_def)
    with inv(2) have zero: "doneChan s = []" "jobs s = []" "busy (workers s) = 0" "lost s = 0"
      by (simp_all add: inv_count_def)
    from zero(3) have idle: "list_all (\<lambda>w. w = Waiting) (workers s)" by (rule busy_zero)
    then have "exited (workers s) = 0" by (rule idle_not_exited)
    with inv(3) have "statusChan s = []" by (simp add: inv_errors_def)
    moreover from zero(4) have "\<not> crashed s" by (simp add: lost_def split: if_splits)
    ultimately show ?thesis using c zero idle hist ret by simp
  qed
  from run_first_error [OF assms] hist success show ?thesis by blast
qed

theorem CopyWithPrefix_returns_witness:
  "(\<exists>s. run (init [''a''] :: string dispatcher)
        [Enqueue, ListingEnds, Take 0 (Return None), SendDone 0, ReceiveDone] = Some s
      \<and> control s = Returned None \<and> check s = 1 \<and> count s = 1)
   \<and> (\<exists>s. run (init [''a'', ''b''] :: string dispatcher)
        [Enqueue, Take 3 (Return (Some ''E'')), Enqueue, SendError 3, ListingEnds,
         Take 0 (Return None), SendDone 0, ReceiveError] = Some s
      \<and> control s = Returned (Some ''E''))"
proof (rule conjI)
  have "map_option control (run (init [''a''] :: string dispatcher)
        [Enqueue, ListingEnds, Take 0 (Return None), SendDone 0, ReceiveDone])
      = Some (Returned None)"
    by (simp add: step_def init_def WORKER_COUNT_def)
  from map_option_SomeD [OF this] obtain s where
    ok: "run (init [''a''] :: string dispatcher)
        [Enqueue, ListingEnds, Take 0 (Return None), SendDone 0, ReceiveDone] = Some s"
    and returned: "control s = Returned None"
    by (elim exE conjE)
  note success = CopyWithPrefix_returns [OF ok, THEN conjunct2, THEN conjunct2, rule_format,
      OF returned]
  from success [THEN conjunct1] success [THEN conjunct2, THEN conjunct1]
  have "check s = 1" and "count s = 1"
    by simp_all
  with ok returned show "\<exists>s. run (init [''a''] :: string dispatcher)
        [Enqueue, ListingEnds, Take 0 (Return None), SendDone 0, ReceiveDone] = Some s
      \<and> control s = Returned None \<and> check s = 1 \<and> count s = 1"
    by (intro exI [of _ s] conjI)
next
  have "map_option control (run (init [''a'', ''b''] :: string dispatcher)
        [Enqueue, Take 3 (Return (Some ''E'')), Enqueue, SendError 3, ListingEnds,
         Take 0 (Return None), SendDone 0, ReceiveError])
      = Some (Returned (Some ''E''))"
    by (simp add: step_def init_def WORKER_COUNT_def)
  from map_option_SomeD [OF this] obtain t where
    bad: "run (init [''a'', ''b''] :: string dispatcher)
        [Enqueue, Take 3 (Return (Some ''E'')), Enqueue, SendError 3, ListingEnds,
         Take 0 (Return None), SendDone 0, ReceiveError] = Some t"
    and error: "control t = Returned (Some ''E'')"
    by (elim exE conjE)
  have received: "ReceiveError \<in> set [Enqueue, Take 3 (Return (Some ''E'')), Enqueue,
        SendError 3, ListingEnds, Take 0 (Return None), SendDone 0, ReceiveError :: string action]"
    by simp
  from CopyWithPrefix_returns [OF bad, THEN conjunct2, THEN conjunct1, rule_format, OF received]
  obtain err where "control t = Returned (Some err)"
    by (elim exE)
  with bad error show "\<exists>s. run (init [''a'', ''b''] :: string dispatcher)
        [Enqueue, Take 3 (Return (Some ''E'')), Enqueue, SendError 3, ListingEnds,
         Take 0 (Return None), SendDone 0, ReceiveError] = Some s
      \<and> control s = Returned (Some ''E'')"
    by (intro exI [of _ t] conjI)
qed

subsection \<open>A listing without keys\<close>

lemma init_empty_steps:
  assumes "run (init [] :: 'e dispatcher) as = Some s"
  shows "s = init [] \<or> s = (init [])\<lparr>check := 0, control := Selecting\<rparr>"
  using assms
proof (induction as arbitrary: s rule: rev_induct)
  case Nil
  then show ?case by simp
next
  case (snoc a as)
  from snoc.prems obtain s' where s': "run (init []) as = Some s'" and a: "step s' a = Some s"
    by (auto simp: run_snoc split: option.splits)
  from snoc.IH [OF s'] a show ?case
    by (cases a)
      (auto simp: step_def init_def WORKER_COUNT_def
        split: if_splits control.splits list.splits worker.splits option.splits exit.splits)
qed

text \<open>
  Claim C7 says that \<^verbatim>\<open>CopyWithPrefix\<close> returns for every listing, also for one
  without keys. For a listing without keys it never returns: no key is enqueued, the
  control loop is entered with \<^verbatim>\<open>count\<close> 0 and blocks in its \<^verbatim>\<open>select\<close>, where no
  step of any worker or of the loop is possible any more, because the test
  \<^verbatim>\<open>check >= count\<close> is only reached after a receive.
\<close>

theorem CopyWithPrefix_empty_listing_never_returns:
  "(\<forall>as r. map_option control (run (init [] :: 'e dispatcher) as) \<noteq> Some (Returned r))
   \<and> run (init [] :: 'e dispatcher) [ListingEnds]
       = Some ((init [])\<lparr>check := 0, control := Selecting\<rparr>)
   \<and> (\<forall>a. step ((init [] :: 'e dispatcher)\<lparr>check := 0, control := Selecting\<rparr>) a = None)"
proof -
  have "map_option control (run (init [] :: 'e dispatcher) as) \<noteq> Some (Returned r)" for as r
  proof (cases "run (init [] :: 'e dispatcher) as")
    case None
    then show ?thesis by simp
  next
    case (Some s)
    from init_empty_steps [OF this] Some show ?thesis by (auto simp: init_def)
  qed
  moreover have "run (init [] :: 'e dispatcher) [ListingEnds]
       = Some ((init [])\<lparr>check := 0, control := Selecting\<rparr>)"
    by (simp add: step_def init_def)
  moreover have "step ((init [] :: 'e dispatcher)\<lparr>check := 0, control := Selecting\<rparr>) a = None"
    for a
    by (cases a) (auto simp: step_def init_def WORKER_COUNT_def)
  ultimately show ?thesis by blast
qed

end
